theory Spec2Isabelle
  imports Complex_Main "HOL-Library.Sublist"
begin

section \<open>Values and containers of the runtime\<close>

text \<open>
  The monitor (\<^verbatim>\<open>src/index.js\<close>, class \<^verbatim>\<open>SolanaMonitor\<close>) works on values produced by
  \<^verbatim>\<open>JSON.parse\<close> and dispatches on their shape. A parsed value is a \<open>json\<close>; a
  property that is absent reads as \<^verbatim>\<open>undefined\<close>, which is \<open>None\<close> of
  \<open>json option\<close>. Numbers are the integer-valued ones (request ids, subscription ids,
  slots). Strings are lists of characters.
\<close>

datatype json =
    JNull
  | JBool bool
  | JNum int
  | JStr string
  | JArr "json list"
  | JObj "(string \<times> json) list"

text \<open>Truthiness of a value in a condition (\<^verbatim>\<open>if (v)\<close>, \<^verbatim>\<open>a && b\<close>, \<^verbatim>\<open>!v\<close>).\<close>

fun truthy :: "json option \<Rightarrow> bool" where
  "truthy None = False"
| "truthy (Some JNull) = False"
| "truthy (Some (JBool b)) = b"
| "truthy (Some (JNum n)) = (n \<noteq> 0)"
| "truthy (Some (JStr s)) = (s \<noteq> [])"
| "truthy (Some (JArr xs)) = True"
| "truthy (Some (JObj kvs)) = True"

text \<open>
  Property read \<^verbatim>\<open>v.k\<close> on a value that is neither \<^verbatim>\<open>null\<close> nor
  \<^verbatim>\<open>undefined\<close>, for the property names the monitor reads (none of them exists on a
  string, number, boolean or array). \<open>opt_get\<close> is the optional chain \<^verbatim>\<open>v?.k\<close>,
  which also yields \<^verbatim>\<open>undefined\<close> on \<^verbatim>\<open>null\<close> and \<^verbatim>\<open>undefined\<close>.
\<close>

fun get :: "json \<Rightarrow> string \<Rightarrow> json option" where
  "get (JObj kvs) k = map_of kvs k"
| "get _ k = None"

fun opt_get :: "json option \<Rightarrow> string \<Rightarrow> json option" where
  "opt_get None k = None"
| "opt_get (Some v) k = get v k"

text \<open>
  A \<^verbatim>\<open>Set\<close> keeps its elements in insertion order and compares them with
  SameValueZero: primitives by value, objects and arrays by reference. Every object the
  monitor adds comes fresh out of \<^verbatim>\<open>JSON.parse\<close>, so it is never found in the set.
  A set is the list of its elements, oldest first.
\<close>

fun primitive :: "json \<Rightarrow> bool" where
  "primitive (JArr xs) = False"
| "primitive (JObj kvs) = False"
| "primitive _ = True"

definition set_has :: "json list \<Rightarrow> json \<Rightarrow> bool" where
  "set_has xs v = (primitive v \<and> v \<in> set xs)"

definition set_add :: "json list \<Rightarrow> json \<Rightarrow> json list" where
  "set_add xs v = (if set_has xs v then xs else xs @ [v])"

text \<open>The same for a set of strings (\<^verbatim>\<open>trackedWallets\<close>, \<^verbatim>\<open>walletAddresses\<close>).\<close>

definition str_add :: "string list \<Rightarrow> string \<Rightarrow> string list" where
  "str_add xs v = (if v \<in> set xs then xs else xs @ [v])"

definition str_set_of :: "string list \<Rightarrow> string list" where
  "str_set_of vs = foldl str_add [] vs"

section \<open>Configuration\<close>

definition RAYDIUM :: string where
  "RAYDIUM = ''675kPX9MHTjS2zt1qfr1NYHuzeLXfQM9H24wFSUt1Mp8''"

definition JUPITER :: string where
  "JUPITER = ''JUP6LkbZbjS1jKKwapdHNy74zcZ3tLUZoi5QNyVTaV4''"

definition ORCA :: string where
  "ORCA = ''whirLbMiicVdio4qvUfM5KAg6Ct8VwpYzGff3uctyCc''"

definition PUMP_FUN :: string where
  "PUMP_FUN = ''6EF8rrecthR5Dkzon8Nwu78hRvfCKubJ14M5uBEwF6P''"

definition METEORA :: string where
  "METEORA = ''Eo7WjKq67rjJQSZxS6z3YkapzY3eMj6Xy8X5EQVn5UaB''"

definition OPENBOOK :: string where
  "OPENBOOK = ''srmqPiDkJXRLGgxtFBRNJhGjLhQKLLqPKCCQGLFTQqo''"

definition ACTIVE_DEX_PROGRAMS :: "string list" where
  "ACTIVE_DEX_PROGRAMS = [RAYDIUM, JUPITER, ORCA, PUMP_FUN, METEORA, OPENBOOK]"

section \<open>The monitor and what it does to the outside\<close>

datatype readyState = CONNECTING | OPEN | CLOSING | CLOSED

text \<open>
  The fields of \<^verbatim>\<open>SolanaMonitor\<close>. \<open>ws\<close> is \<open>None\<close> for \<^verbatim>\<open>null\<close>, else the
  \<^verbatim>\<open>readyState\<close> of the socket. \<open>reconnectDelay\<close> is a rational: every value it
  takes (5000 times a power of 1.5, below 60000, or 60000) is a dyadic rational that a
  double holds exactly.
\<close>

record monitor =
  ws :: "readyState option"
  isConnected :: bool
  reconnectAttempts :: nat
  maxReconnectAttempts :: nat
  reconnectDelay :: rat
  subscriptionIds :: "json list"
  trackedWallets :: "string list"
  processedTransactions :: "json list"

text \<open>The \<^verbatim>\<open>logsSubscribe\<close> request that \<^verbatim>\<open>ws.send\<close> serialises.\<close>

record request =
  jsonrpc :: string
  req_id :: nat
  rpc_method :: string
  mentions :: "string list"
  commitment :: string

text \<open>
  The row that \<^verbatim>\<open>analyzeWalletProfitability\<close> upserts into
  \<^verbatim>\<open>candidate_wallets\<close> (its \<^verbatim>\<open>discovery_timestamp\<close>, the wall clock, is left out).
\<close>

record candidate =
  wallet_address :: string
  discovery_source :: string
  discovery_type :: string
  initial_score :: nat
  confidence :: rat
  status :: string
  meta_signature :: string
  meta_slot :: "json option"

text \<open>
  What a handler does beyond changing the monitor, in the order it does it: a frame sent
  on the socket, a timer armed for \<^verbatim>\<open>connect\<close>, an upsert issued to the store (table,
  row, conflict key), the process exiting. Console output is not part of the model.
\<close>

datatype effect =
    Send request
  | SetTimeout rat
  | Upsert string candidate string
  | ProcessExit nat

definition constructor :: monitor where
  "constructor = \<lparr> ws = None, isConnected = False, reconnectAttempts = 0,
     maxReconnectAttempts = 10, reconnectDelay = 5000, subscriptionIds = [],
     trackedWallets = [], processedTransactions = [] \<rparr>"

section \<open>Subscription management\<close>

definition subscribeMessage :: "nat \<Rightarrow> string \<Rightarrow> request" where
  "subscribeMessage i address = \<lparr> jsonrpc = ''2.0'', req_id = i,
     rpc_method = ''logsSubscribe'', mentions = [address], commitment = ''finalized'' \<rparr>"

text \<open>
  \<^verbatim>\<open>xs.forEach((x, index) => ... id: base + index + 1 ...)\<close>: one request per
  element, in order.
\<close>

definition forEach_subscribe :: "nat \<Rightarrow> string list \<Rightarrow> request list" where
  "forEach_subscribe base xs =
     map (\<lambda>(index, x). subscribeMessage (base + index + 1) x) (enumerate 0 xs)"

definition subscribeToLogs :: "monitor \<Rightarrow> effect list" where
  "subscribeToLogs s =
     (if ws s \<noteq> Some OPEN then []
      else map Send
        (forEach_subscribe 0 ACTIVE_DEX_PROGRAMS @
         (if length (trackedWallets s) > 0
          then forEach_subscribe (length ACTIVE_DEX_PROGRAMS) (trackedWallets s)
          else [])))"

text \<open>The requests among the effects, in sending order.\<close>

fun sent :: "effect list \<Rightarrow> request list" where
  "sent [] = []"
| "sent (Send r # es) = r # sent es"
| "sent (_ # es) = sent es"

section \<open>Classification of a transaction's logs\<close>

text \<open>A \<^verbatim>\<open>TypeError\<close> raised inside a handler; each handler catches its own.\<close>

datatype error = TypeError

text \<open>\<^verbatim>\<open>s.includes(t)\<close> on strings: \<open>t\<close> occurs in \<open>s\<close> at some position.\<close>

fun str_includes :: "string \<Rightarrow> string \<Rightarrow> bool" where
  "str_includes [] t = (t = [])"
| "str_includes (c # cs) t = (prefix t (c # cs) \<or> str_includes cs t)"

text \<open>
  The callback of \<^verbatim>\<open>logs.some\<close> in \<^verbatim>\<open>isDEXTransaction\<close>, on one element of
  \<^verbatim>\<open>logs\<close>. On a string \<^verbatim>\<open>log.includes\<close> is the substring test, on an array it is
  membership, and on anything else it is not a function.
\<close>

fun dexCallback :: "json \<Rightarrow> error + bool" where
  "dexCallback (JStr logline) = Inr
     (list_ex (\<lambda>programId. str_includes logline programId) ACTIVE_DEX_PROGRAMS \<or>
      str_includes logline ''swap'' \<or> str_includes logline ''trade'' \<or> str_includes logline ''exchange'')"
| "dexCallback (JArr logline) = Inr
     (list_ex (\<lambda>programId. JStr programId \<in> set logline) ACTIVE_DEX_PROGRAMS \<or>
      JStr ''swap'' \<in> set logline \<or> JStr ''trade'' \<in> set logline \<or> JStr ''exchange'' \<in> set logline)"
| "dexCallback _ = Inl TypeError"

text \<open>\<^verbatim>\<open>Array.prototype.some\<close>: stops at the first element the callback accepts.\<close>

fun some_dex :: "json list \<Rightarrow> error + bool" where
  "some_dex [] = Inr False"
| "some_dex (logline # logs) =
     (case dexCallback logline of
        Inl e \<Rightarrow> Inl e
      | Inr True \<Rightarrow> Inr True
      | Inr False \<Rightarrow> some_dex logs)"

text \<open>\<^verbatim>\<open>isDEXTransaction(logs)\<close>; only an array has \<^verbatim>\<open>some\<close>.\<close>

fun isDEXTransaction :: "json option \<Rightarrow> error + bool" where
  "isDEXTransaction (Some (JArr logs)) = some_dex logs"
| "isDEXTransaction _ = Inl TypeError"

section \<open>Wallet extraction\<close>

text \<open>The character class \<^verbatim>\<open>[1-9A-HJ-NP-Za-km-z]\<close> of \<^verbatim>\<open>walletRegex\<close>.\<close>

definition in_range :: "char \<Rightarrow> char \<Rightarrow> char \<Rightarrow> bool" where
  "in_range lo hi c = ((of_char lo :: nat) \<le> of_char c \<and> (of_char c :: nat) \<le> of_char hi)"

definition base58 :: "char \<Rightarrow> bool" where
  "base58 c =
     (in_range CHR ''1'' CHR ''9'' c \<or> in_range CHR ''A'' CHR ''H'' c \<or>
      in_range CHR ''J'' CHR ''N'' c \<or> in_range CHR ''P'' CHR ''Z'' c \<or>
      in_range CHR ''a'' CHR ''k'' c \<or> in_range CHR ''m'' CHR ''z'' c)"

text \<open>
  \<^verbatim>\<open>log.match(/[1-9A-HJ-NP-Za-km-z]{32,44}/g)\<close>: the matches from left to right. At
  a position the greedy quantifier takes the class characters that follow, at most 44 of
  them, and matches if they are at least 32; the search goes on behind a match, and one
  character further where there is none.
\<close>

function match_all :: "string \<Rightarrow> string list" where
  "match_all [] = []"
| "match_all (c # cs) =
     (let m = takeWhile base58 (take 44 (c # cs))
      in if 32 \<le> length m then m # match_all (drop (length m) (c # cs))
         else match_all cs)"
  by pat_completeness auto
termination
  by (relation "measure length") auto

text \<open>
  \<^verbatim>\<open>matches.forEach(address => { if (address.length >= 32 && address.length <= 44)
  walletAddresses.add(address) })\<close>
\<close>

definition add_matches :: "string list \<Rightarrow> string list \<Rightarrow> string list" where
  "add_matches walletAddresses matches =
     foldl (\<lambda>acc address.
              if 32 \<le> length address \<and> length address \<le> 44 then str_add acc address else acc)
           walletAddresses matches"

text \<open>\<^verbatim>\<open>logs.forEach(log => ...)\<close>; only a string has \<^verbatim>\<open>match\<close>.\<close>

fun extract_forEach :: "string list \<Rightarrow> json list \<Rightarrow> error + string list" where
  "extract_forEach walletAddresses [] = Inr walletAddresses"
| "extract_forEach walletAddresses (JStr logline # logs) =
     extract_forEach (add_matches walletAddresses (match_all logline)) logs"
| "extract_forEach walletAddresses (_ # logs) = Inl TypeError"

fun extractWalletAddresses :: "json \<Rightarrow> error + string list" where
  "extractWalletAddresses (JArr logs) = extract_forEach [] logs"
| "extractWalletAddresses _ = Inl TypeError"

text \<open>
  The maximal runs of class characters of a line, from left to right: a run starts at a
  class character and takes all the class characters that follow it.
\<close>

function runs :: "string \<Rightarrow> string list" where
  "runs [] = []"
| "runs (c # cs) =
     (if base58 c then takeWhile base58 (c # cs) # runs (dropWhile base58 cs)
      else runs cs)"
  by pat_completeness auto
termination
  by (relation "measure length") (auto simp: less_Suc_eq_le length_dropWhile_le)

text \<open>
  The pieces the greedy quantifier \<^verbatim>\<open>{32,44}\<close> cuts a run into: 44 characters at
  a time from the left while at least 32 remain.
\<close>

function chunks :: "string \<Rightarrow> string list" where
  "chunks r = (if length r < 32 then [] else take 44 r # chunks (drop 44 r))"
  by pat_completeness auto
termination
  by (relation "measure length") auto

declare chunks.simps [simp del]

text \<open>
  The extraction as the specification words it: every maximal substring over the address
  alphabet whose length lies in [32,44], deduplicated within the notification.
\<close>

definition spec_tokens :: "string \<Rightarrow> string list" where
  "spec_tokens line = filter (\<lambda>r. 32 \<le> length r \<and> length r \<le> 44) (runs line)"

definition spec_extract :: "string list \<Rightarrow> string list" where
  "spec_extract lines = str_set_of (concat (map spec_tokens lines))"

section \<open>Discovery\<close>

definition analyzeWalletProfitability :: "string \<Rightarrow> string \<Rightarrow> json option \<Rightarrow> effect list" where
  "analyzeWalletProfitability walletAddress signature contextData =
     [Upsert ''candidate_wallets''
        \<lparr> wallet_address = walletAddress, discovery_source = ''DEX_activity'',
          discovery_type = ''jupiter_swap'', initial_score = 50, confidence = 1 / 2,
          status = ''pending'', meta_signature = signature,
          meta_slot = opt_get contextData ''slot'' \<rparr>
        ''wallet_address'']"

text \<open>
  \<^verbatim>\<open>quickWalletDiscovery\<close>: \<^verbatim>\<open>valueData.logs || []\<close>, the extraction, then one
  upsert per address. A failing upsert is caught inside
  \<^verbatim>\<open>analyzeWalletProfitability\<close>, so the loop issues them all; an extraction that
  throws is caught here, before any upsert.
\<close>

definition quickWalletDiscovery :: "string \<Rightarrow> json \<Rightarrow> json option \<Rightarrow> effect list" where
  "quickWalletDiscovery signature valueData contextData =
     (let logs = (if truthy (get valueData ''logs'')
                  then (case get valueData ''logs'' of Some l \<Rightarrow> l | None \<Rightarrow> JArr [])
                  else JArr [])
      in case extractWalletAddresses logs of
           Inl e \<Rightarrow> []
         | Inr walletAddresses \<Rightarrow>
             concat (map (\<lambda>walletAddress.
               analyzeWalletProfitability walletAddress signature contextData) walletAddresses))"

definition processTransaction :: "string \<Rightarrow> json \<Rightarrow> json option \<Rightarrow> effect list" where
  "processTransaction signature valueData contextData =
     quickWalletDiscovery signature valueData contextData"

section \<open>Message handling\<close>

text \<open>\<^verbatim>\<open>entries.slice(-n)\<close>: the last \<open>n\<close> elements, all of them if there are fewer.\<close>

definition slice_last :: "nat \<Rightarrow> 'a list \<Rightarrow> 'a list" where
  "slice_last n entries = drop (length entries - n) entries"

text \<open>
  \<^verbatim>\<open>handleLogNotification(logEntry)\<close>. Every change of the monitor happens before the
  first \<^verbatim>\<open>await\<close>, so one call is one step. A signature that is not a string has no
  \<^verbatim>\<open>substring\<close>: the \<^verbatim>\<open>TypeError\<close> is caught after the cache has been updated.
  The classifier throwing is caught in the same way.
\<close>

definition handleLogNotification :: "monitor \<Rightarrow> json option \<Rightarrow> monitor \<times> effect list" where
  "handleLogNotification s logEntry =
     (case opt_get (opt_get logEntry ''value'') ''signature'' of
        None \<Rightarrow> (s, [])
      | Some signature \<Rightarrow>
          if \<not> truthy (Some signature) then (s, [])
          else if set_has (processedTransactions s) signature then (s, [])
          else
            let valueData = opt_get logEntry ''value'';
                logs = opt_get valueData ''logs'';
                added = set_add (processedTransactions s) signature;
                s' = s\<lparr>processedTransactions :=
                        (if length added > 1000 then slice_last 500 added else added)\<rparr>
            in case (signature, valueData) of
                 (JStr sig, Some v) \<Rightarrow>
                   (case isDEXTransaction logs of
                      Inr True \<Rightarrow> (s', processTransaction sig v (opt_get logEntry ''context''))
                    | _ \<Rightarrow> (s', []))
               | _ \<Rightarrow> (s', []))"

text \<open>
  A frame is text; \<^verbatim>\<open>JSON.parse\<close> either throws (caught, logged) or yields a value.
\<close>

datatype frame = Malformed | Parsed json

fun handleMessage :: "monitor \<Rightarrow> frame \<Rightarrow> monitor \<times> effect list" where
  "handleMessage s Malformed = (s, [])"
| "handleMessage s (Parsed JNull) = (s, [])"
| "handleMessage s (Parsed message) =
     (if truthy (get message ''id'') \<and> truthy (get message ''result'') then
        (case get message ''result'' of
           Some result \<Rightarrow> (s\<lparr>subscriptionIds := set_add (subscriptionIds s) result\<rparr>, [])
         | None \<Rightarrow> (s, []))
      else if truthy (get message ''id'') \<and> truthy (get message ''error'') then (s, [])
      else if get message ''method'' = Some (JStr ''logsNotification'')
              \<and> truthy (get message ''params'') then
        handleLogNotification s (opt_get (get message ''params'') ''result'')
      else (s, []))"

section \<open>Connection management\<close>

definition handleReconnect :: "monitor \<Rightarrow> monitor \<times> effect list" where
  "handleReconnect s =
     (if reconnectAttempts s \<ge> maxReconnectAttempts s then (s, [ProcessExit 1])
      else (s\<lparr>reconnectAttempts := reconnectAttempts s + 1,
               reconnectDelay := min (reconnectDelay s * (3 / 2)) 60000\<rparr>,
            [SetTimeout (reconnectDelay s)]))"

text \<open>
  \<^verbatim>\<open>connect()\<close>; \<open>created\<close> tells whether \<^verbatim>\<open>new WebSocket(url)\<close> returned a socket
  (which starts in \<^verbatim>\<open>CONNECTING\<close>) or threw.
\<close>

definition connect :: "bool \<Rightarrow> monitor \<Rightarrow> monitor \<times> effect list" where
  "connect created s =
     (if isConnected s \<or> ws s = Some CONNECTING then (s, [])
      else if created then (s\<lparr>ws := Some CONNECTING\<rparr>, [])
      else handleReconnect s)"

definition onopen :: "monitor \<Rightarrow> monitor \<times> effect list" where
  "onopen s =
     (let s' = s\<lparr>isConnected := True, reconnectAttempts := 0, reconnectDelay := 5000\<rparr>
      in (s', subscribeToLogs s'))"

definition onclose :: "monitor \<Rightarrow> monitor \<times> effect list" where
  "onclose s = handleReconnect (s\<lparr>isConnected := False, subscriptionIds := []\<rparr>)"

definition onerror :: "monitor \<Rightarrow> monitor \<times> effect list" where
  "onerror s = (s\<lparr>isConnected := False\<rparr>, [])"

text \<open>
  The answer of the store to the query of \<^verbatim>\<open>loadTrackedWallets\<close>: an error (or an
  exception), which leaves the set as it is, or the addresses of the verified wallets.
\<close>

datatype load_result = LoadError | Loaded "string list"

fun loadTrackedWallets :: "monitor \<Rightarrow> load_result \<Rightarrow> monitor" where
  "loadTrackedWallets s LoadError = s"
| "loadTrackedWallets s (Loaded wallets) = s\<lparr>trackedWallets := str_set_of wallets\<rparr>"

definition refreshTrackedWallets :: "monitor \<Rightarrow> load_result \<Rightarrow> monitor \<times> effect list" where
  "refreshTrackedWallets s r =
     (let s' = loadTrackedWallets s r
      in if isConnected s' then (s', subscribeToLogs s') else (s', []))"

text \<open>
  What happens to a running monitor: \<^verbatim>\<open>connect\<close> is called (by \<^verbatim>\<open>main\<close> or by the
  reconnect timer), the socket opens, closes, reports an error or delivers a frame, the
  load started by the constructor completes, or the periodic refresh completes. The
  socket's \<^verbatim>\<open>readyState\<close> is \<^verbatim>\<open>OPEN\<close> when \<^verbatim>\<open>onopen\<close> runs and \<^verbatim>\<open>CLOSED\<close> when
  \<^verbatim>\<open>onclose\<close> runs.
\<close>

datatype event =
    Connect bool
  | Open
  | Close
  | Error
  | Message frame
  | WalletsLoaded load_result
  | Refresh load_result

fun step :: "monitor \<Rightarrow> event \<Rightarrow> monitor \<times> effect list" where
  "step s (Connect created) = connect created s"
| "step s Open = onopen (s\<lparr>ws := Some OPEN\<rparr>)"
| "step s Close = onclose (s\<lparr>ws := Some CLOSED\<rparr>)"
| "step s Error = onerror s"
| "step s (Message data) = handleMessage s data"
| "step s (WalletsLoaded r) = (loadTrackedWallets s r, [])"
| "step s (Refresh r) = refreshTrackedWallets s r"

text \<open>A run of events from a state; nothing happens after \<^verbatim>\<open>process.exit\<close>.\<close>

fun run :: "monitor \<Rightarrow> event list \<Rightarrow> monitor \<times> effect list" where
  "run s [] = (s, [])"
| "run s (e # es) =
     (let (s', out) = step s e
      in if ProcessExit 1 \<in> set out then (s', out)
         else let (s'', out') = run s' es in (s'', out @ out'))"

section \<open>Reading the effects\<close>

text \<open>The addresses of the rows upserted, and the delays of the timers armed, in order.\<close>

fun upserted :: "effect list \<Rightarrow> string list" where
  "upserted [] = []"
| "upserted (Upsert table row key # es) = wallet_address row # upserted es"
| "upserted (_ # es) = upserted es"

fun timeouts :: "effect list \<Rightarrow> rat list" where
  "timeouts [] = []"
| "timeouts (SetTimeout d # es) = d # timeouts es"
| "timeouts (_ # es) = timeouts es"

text \<open>The notifications of a sequence delivered one after the other.\<close>

definition deliver :: "monitor \<Rightarrow> json option list \<Rightarrow> monitor" where
  "deliver s logEntries = foldl (\<lambda>s logEntry. fst (handleLogNotification s logEntry)) s logEntries"

section \<open>Example inputs\<close>

text \<open>
  The push notification of the stream protocol,
  \<^verbatim>\<open>{context: {slot}, value: {signature, logs, err}}\<close>, and the acknowledgement
  \<^verbatim>\<open>{jsonrpc, result, id}\<close> of a subscribe request.
\<close>

definition notification :: "int \<Rightarrow> string \<Rightarrow> string list \<Rightarrow> json" where
  "notification slot signature logs =
     JObj [(''context'', JObj [(''slot'', JNum slot)]),
           (''value'', JObj [(''signature'', JStr signature), (''err'', JNull),
                            (''logs'', JArr (map JStr logs))])]"

definition ack :: "int \<Rightarrow> int \<Rightarrow> json" where
  "ack i subscription = JObj [(''jsonrpc'', JStr ''2.0''), (''result'', JNum subscription), (''id'', JNum i)]"

definition wallet_A :: string where
  "wallet_A = ''7xKXtg2CW87d97TXJSDpbD5jBkheTqA83TZRuJosgAsU''"

text \<open>A transaction whose only log line has a keyword and names \<open>wallet_A\<close>.\<close>

definition signature_A :: string where
  "signature_A = ''5VERv8NMvzbJMEkV8xnrLkEaWRtSz9CosKDYjCJjBRnb''"

definition swap_of_A :: json where
  "swap_of_A = notification 1 signature_A [''Program log: swap wallet='' @ wallet_A]"

definition candidate_row :: "string \<Rightarrow> string \<Rightarrow> json option \<Rightarrow> candidate" where
  "candidate_row walletAddress signature slot =
     \<lparr> wallet_address = walletAddress, discovery_source = ''DEX_activity'',
       discovery_type = ''jupiter_swap'', initial_score = 50, confidence = 1 / 2,
       status = ''pending'', meta_signature = signature, meta_slot = slot \<rparr>"

text \<open>Two log lines that name \<open>wallet_A\<close>.\<close>

definition two_mentions :: "string list" where
  "two_mentions = [''Program X invoke [1] wallet='' @ wallet_A, ''signer '' @ wallet_A]"

text \<open>A cache of 1000 signatures: \<^verbatim>\<open>a\<close>, \<^verbatim>\<open>aa\<close>, \<^verbatim>\<open>aaa\<close> and so on.\<close>

definition full_cache :: "json list" where
  "full_cache = map (\<lambda>n. JStr (replicate n CHR ''a'')) [1 ..< 1001]"

section \<open>Properties of the sets\<close>

lemma set_foldl_str_add: "set (foldl str_add acc xs) = set acc \<union> set xs"
  by (induction xs arbitrary: acc) (auto simp: str_add_def)

lemma distinct_foldl_str_add: "distinct acc \<Longrightarrow> distinct (foldl str_add acc xs)"
  by (induction xs arbitrary: acc) (auto simp: str_add_def)

lemma str_set_of_set: "set (str_set_of xs) = set xs" "distinct (str_set_of xs)"
  by (simp_all add: str_set_of_def set_foldl_str_add distinct_foldl_str_add)

section \<open>Properties of subscription management\<close>

lemma sent_map_Send: "sent (map Send rs) = rs"
  by (induction rs) auto

lemma sent_append: "sent (es @ fs) = sent es @ sent fs"
  by (induction es rule: sent.induct) auto

lemma ids_forEach_subscribe:
  "map req_id (forEach_subscribe base xs) = [Suc base ..< Suc base + length xs]"
proof -
  have "map req_id (forEach_subscribe base xs) = map (\<lambda>p. base + fst p + 1) (enumerate 0 xs)"
    by (simp add: forEach_subscribe_def subscribeMessage_def case_prod_beta)
  also have "\<dots> = map (\<lambda>i. base + i + 1) (map fst (enumerate 0 xs))"
    by (simp only: map_map comp_def)
  also have "\<dots> = map (\<lambda>i. base + i + 1) [0 ..< length xs]"
    by (simp only: map_fst_enumerate add_0)
  also have "\<dots> = [Suc base ..< Suc base + length xs]"
    by (induction xs rule: rev_induct) auto
  finally show ?thesis .
qed

lemma mentions_forEach_subscribe:
  "map mentions (forEach_subscribe base xs) = map (\<lambda>x. [x]) xs"
proof -
  have "map mentions (forEach_subscribe base xs) = map (\<lambda>p. [snd p]) (enumerate 0 xs)"
    by (simp add: forEach_subscribe_def subscribeMessage_def case_prod_beta)
  also have "\<dots> = map (\<lambda>x. [x]) (map snd (enumerate 0 xs))"
    by (simp only: map_map comp_def)
  finally show ?thesis by (simp only: map_snd_enumerate)
qed

lemma fields_forEach_subscribe:
  assumes "r \<in> set (forEach_subscribe base xs)"
  shows "rpc_method r = ''logsSubscribe'' \<and> jsonrpc r = ''2.0'' \<and> commitment r = ''finalized''"
  using assms by (auto simp: forEach_subscribe_def subscribeMessage_def)

lemma sent_subscribeToLogs:
  assumes "ws s = Some OPEN"
  shows "sent (subscribeToLogs s) =
    forEach_subscribe 0 ACTIVE_DEX_PROGRAMS @
    forEach_subscribe (length ACTIVE_DEX_PROGRAMS) (trackedWallets s)"
proof (cases "trackedWallets s = []")
  case True
  then have "forEach_subscribe (length ACTIVE_DEX_PROGRAMS) (trackedWallets s) = []"
    by (simp add: forEach_subscribe_def)
  with True assms show ?thesis
    by (simp add: subscribeToLogs_def sent_map_Send)
next
  case False
  with assms show ?thesis
    by (simp add: subscribeToLogs_def sent_append sent_map_Send)
qed

lemma ids_subscribeToLogs:
  assumes "ws s = Some OPEN"
  shows "map req_id (sent (subscribeToLogs s)) =
    [1 ..< Suc (length ACTIVE_DEX_PROGRAMS + length (trackedWallets s))]"
proof -
  let ?P = "length ACTIVE_DEX_PROGRAMS" and ?W = "length (trackedWallets s)"
  have "map req_id (sent (subscribeToLogs s)) = [Suc 0 ..< Suc 0 + ?P] @ [Suc ?P ..< Suc ?P + ?W]"
    by (simp add: sent_subscribeToLogs [OF assms] ids_forEach_subscribe)
  also have "\<dots> = [1 ..< Suc (?P + ?W)]"
    using upt_add_eq_append [of "Suc 0" "Suc ?P" ?W] by simp
  finally show ?thesis .
qed

lemma mentions_subscribeToLogs:
  assumes "ws s = Some OPEN"
  shows "map mentions (sent (subscribeToLogs s)) =
    map (\<lambda>x. [x]) (ACTIVE_DEX_PROGRAMS @ trackedWallets s)"
  by (simp add: sent_subscribeToLogs [OF assms] mentions_forEach_subscribe)

lemma only_sends_subscribeToLogs: "subscribeToLogs s = map Send (sent (subscribeToLogs s))"
  unfolding subscribeToLogs_def by (simp only: sent_map_Send sent.simps list.map if_distrib [of sent] if_distrib [of "map Send"] cong: if_cong)

lemma length_ACTIVE_DEX_PROGRAMS: "length ACTIVE_DEX_PROGRAMS = 6"
  by (simp add: ACTIVE_DEX_PROGRAMS_def)

lemma handleLogNotification_tracked:
  "trackedWallets (fst (handleLogNotification s e)) = trackedWallets s"
  by (auto simp: handleLogNotification_def Let_def
      split: option.splits json.splits sum.splits bool.splits)

lemma handleMessage_tracked:
  "trackedWallets (fst (handleMessage s f)) = trackedWallets s"
  by (cases "(s, f)" rule: handleMessage.cases;
      auto simp: handleLogNotification_tracked split: option.splits)

lemma loadTrackedWallets_distinct:
  "distinct (trackedWallets s) \<Longrightarrow> distinct (trackedWallets (loadTrackedWallets s r))"
  by (cases r) (simp_all add: str_set_of_set)

lemma step_tracked_distinct:
  assumes "distinct (trackedWallets s)"
  shows "distinct (trackedWallets (fst (step s e)))"
proof (cases e)
  case (Connect created)
  with assms show ?thesis
    by (simp add: connect_def handleReconnect_def)
next
  case Open
  with assms show ?thesis by (simp add: onopen_def Let_def)
next
  case Close
  with assms show ?thesis by (simp add: onclose_def handleReconnect_def)
next
  case Error
  with assms show ?thesis by (simp add: onerror_def)
next
  case (Message data)
  with assms show ?thesis by (simp add: handleMessage_tracked)
next
  case (WalletsLoaded r)
  with assms show ?thesis by (simp add: loadTrackedWallets_distinct)
next
  case (Refresh r)
  with assms loadTrackedWallets_distinct [OF assms, of r] show ?thesis
    by (simp add: refreshTrackedWallets_def Let_def)
qed

lemma run_tracked_distinct:
  "distinct (trackedWallets s) \<Longrightarrow> distinct (trackedWallets (fst (run s es)))"
proof (induction es arbitrary: s)
  case Nil
  then show ?case by simp
next
  case (Cons e es)
  obtain s' out where st: "step s e = (s', out)" by (cases "step s e")
  obtain s'' out' where rn: "run s' es = (s'', out')" by (cases "run s' es")
  from step_tracked_distinct [OF Cons.prems, of e] st have d': "distinct (trackedWallets s')"
    by simp
  from Cons.IH [OF d'] rn have d'': "distinct (trackedWallets s'')" by simp
  show ?case
    using d' d'' by (simp add: st rn)
qed

text \<open>
  Claim C1. While the socket is open, one call of \<^verbatim>\<open>subscribeToLogs\<close> sends exactly
  \<open>P + W\<close> subscribe requests and nothing else, where \<open>P = 6\<close> is the number of DEX
  programs and \<open>W\<close> the number of tracked wallets (the size of the set
  \<^verbatim>\<open>trackedWallets\<close>, which never holds an address twice); the requests name the
  programs and then the wallets, each request is a \<^verbatim>\<open>logsSubscribe\<close> request of
  JSON-RPC 2.0 with commitment \<^verbatim>\<open>finalized\<close> and exactly one address in
  \<^verbatim>\<open>mentions\<close>, and the request ids of the call are pairwise distinct.
\<close>

theorem C1_subscribeToLogs_one_request_per_topic:
  assumes "ws s = Some OPEN"
  shows "length (sent (subscribeToLogs s)) = 6 + length (trackedWallets s)
    \<and> (distinct (trackedWallets s) \<longrightarrow>
          length (sent (subscribeToLogs s)) = 6 + card (set (trackedWallets s)))
    \<and> distinct (trackedWallets (fst (run constructor events)))
    \<and> subscribeToLogs s = map Send (sent (subscribeToLogs s))
    \<and> map mentions (sent (subscribeToLogs s)) =
        map (\<lambda>topic. [topic]) (ACTIVE_DEX_PROGRAMS @ trackedWallets s)
    \<and> (\<forall>r \<in> set (sent (subscribeToLogs s)). length (mentions r) = 1)
    \<and> (\<forall>r \<in> set (sent (subscribeToLogs s)).
          rpc_method r = ''logsSubscribe'' \<and> jsonrpc r = ''2.0'' \<and> commitment r = ''finalized'')
    \<and> distinct (map req_id (sent (subscribeToLogs s)))"
proof -
  have len: "length (sent (subscribeToLogs s)) = 6 + length (trackedWallets s)"
    using arg_cong [OF ids_subscribeToLogs [OF assms], of length]
    by (simp add: length_ACTIVE_DEX_PROGRAMS)
  then have card: "distinct (trackedWallets s) \<longrightarrow>
          length (sent (subscribeToLogs s)) = 6 + card (set (trackedWallets s))"
    by (simp add: distinct_card)
  have inv: "distinct (trackedWallets (fst (run constructor events)))"
    by (rule run_tracked_distinct) (simp add: constructor_def)
  have one: "\<forall>r \<in> set (sent (subscribeToLogs s)). length (mentions r) = 1"
  proof
    fix r assume "r \<in> set (sent (subscribeToLogs s))"
    then have "mentions r \<in> set (map mentions (sent (subscribeToLogs s)))"
      by simp
    then show "length (mentions r) = 1"
      unfolding mentions_subscribeToLogs [OF assms] by auto
  qed
  have subscribe: "\<forall>r \<in> set (sent (subscribeToLogs s)).
          rpc_method r = ''logsSubscribe'' \<and> jsonrpc r = ''2.0'' \<and> commitment r = ''finalized''"
  proof
    fix r assume "r \<in> set (sent (subscribeToLogs s))"
    then have "r \<in> set (forEach_subscribe 0 ACTIVE_DEX_PROGRAMS)
        \<or> r \<in> set (forEach_subscribe (length ACTIVE_DEX_PROGRAMS) (trackedWallets s))"
      unfolding sent_subscribeToLogs [OF assms] by simp
    then show "rpc_method r = ''logsSubscribe'' \<and> jsonrpc r = ''2.0'' \<and> commitment r = ''finalized''"
      using fields_forEach_subscribe by blast
  qed
  have "distinct (map req_id (sent (subscribeToLogs s)))"
    by (simp only: ids_subscribeToLogs [OF assms] distinct_upt)
  with len card inv one subscribe mentions_subscribeToLogs [OF assms]
    only_sends_subscribeToLogs [of s]
  show ?thesis by blast
qed

theorem C1_witness:
  "ws (constructor\<lparr>ws := Some OPEN, trackedWallets := [wallet_A]\<rparr>) = Some OPEN
   \<and> distinct (trackedWallets (constructor\<lparr>ws := Some OPEN, trackedWallets := [wallet_A]\<rparr>))
   \<and> map req_id (sent (subscribeToLogs
        (constructor\<lparr>ws := Some OPEN, trackedWallets := [wallet_A]\<rparr>)))
      = [1, 2, 3, 4, 5, 6, 7]
   \<and> map mentions (sent (subscribeToLogs
        (constructor\<lparr>ws := Some OPEN, trackedWallets := [wallet_A]\<rparr>)))
      = [[RAYDIUM], [JUPITER], [ORCA], [PUMP_FUN], [METEORA], [OPENBOOK], [wallet_A]]
   \<and> map rpc_method (sent (subscribeToLogs
        (constructor\<lparr>ws := Some OPEN, trackedWallets := [wallet_A]\<rparr>)))
      = [''logsSubscribe'', ''logsSubscribe'', ''logsSubscribe'', ''logsSubscribe'',
         ''logsSubscribe'', ''logsSubscribe'', ''logsSubscribe'']
   \<and> map jsonrpc (sent (subscribeToLogs
        (constructor\<lparr>ws := Some OPEN, trackedWallets := [wallet_A]\<rparr>)))
      = [''2.0'', ''2.0'', ''2.0'', ''2.0'', ''2.0'', ''2.0'', ''2.0'']
   \<and> map commitment (sent (subscribeToLogs
        (constructor\<lparr>ws := Some OPEN, trackedWallets := [wallet_A]\<rparr>)))
      = [''finalized'', ''finalized'', ''finalized'', ''finalized'', ''finalized'',
         ''finalized'', ''finalized'']
   \<and> length (sent (subscribeToLogs
        (constructor\<lparr>ws := Some OPEN, trackedWallets := [wallet_A]\<rparr>)))
      = 6 + card {wallet_A}"
  using C1_subscribeToLogs_one_request_per_topic
    [of "constructor\<lparr>ws := Some OPEN, trackedWallets := [wallet_A]\<rparr>" "[]"]
  by (simp add: subscribeToLogs_def forEach_subscribe_def subscribeMessage_def
      ACTIVE_DEX_PROGRAMS_def constructor_def)

section \<open>Properties of message handling\<close>

lemma truthy_get_obj: "truthy (get m k) \<Longrightarrow> \<exists>kvs. m = JObj kvs"
  by (cases m) auto

lemma set_add_mem: "v \<in> set (set_add xs v)"
  by (simp add: set_add_def set_has_def)

lemma run_connect_open:
  "run constructor [Connect True, Open] =
     (constructor\<lparr>ws := Some OPEN, isConnected := True\<rparr>,
      map Send (forEach_subscribe 0 ACTIVE_DEX_PROGRAMS))"
  by (simp add: connect_def constructor_def onopen_def subscribeToLogs_def Let_def)

text \<open>
  Claim C2, as stated, fails: the monitor has neither a map from topics to confirmed
  subscriptions nor a map of pending requests. After the connection opens, request 1
  names Raydium and request 2 names Jupiter; the acknowledgement of request 1 and the
  acknowledgement of request 2, both with result 77, leave the monitor in the same state,
  whose only record of the confirmation is the bare id 77.
\<close>

theorem C2_counterexample:
  "map req_id (take 2 (sent (snd (run constructor [Connect True, Open])))) = [1, 2]
   \<and> map mentions (take 2 (sent (snd (run constructor [Connect True, Open]))))
       = [[RAYDIUM], [JUPITER]]
   \<and> step (fst (run constructor [Connect True, Open])) (Message (Parsed (ack 1 77)))
     = step (fst (run constructor [Connect True, Open])) (Message (Parsed (ack 2 77)))
   \<and> subscriptionIds
        (fst (step (fst (run constructor [Connect True, Open])) (Message (Parsed (ack 1 77)))))
     = [JNum 77]"
  unfolding run_connect_open
  by (simp add: sent_map_Send forEach_subscribe_def subscribeMessage_def
      ACTIVE_DEX_PROGRAMS_def ack_def set_add_def set_has_def constructor_def)

text \<open>
  Claim C2, amended. When the dispatcher processes a message whose \<^verbatim>\<open>id\<close> and
  \<^verbatim>\<open>result\<close> are both truthy, it adds the result to the set \<^verbatim>\<open>subscriptionIds\<close>
  and changes nothing else and sends nothing; afterwards the result is a member of that
  set. The set is not keyed by topic, and no pending request is recorded or removed.
\<close>

theorem C2_ack_adds_subscription_id:
  assumes "truthy (get message ''id'')" and "get message ''result'' = Some result"
    and "truthy (Some result)"
  shows "handleMessage s (Parsed message) =
           (s\<lparr>subscriptionIds := set_add (subscriptionIds s) result\<rparr>, [])
         \<and> result \<in> set (subscriptionIds (fst (handleMessage s (Parsed message))))"
proof -
  from assms(1) obtain kvs where "message = JObj kvs"
    using truthy_get_obj by blast
  with assms show ?thesis
    by (simp add: set_add_mem)
qed

theorem C2_witness:
  "truthy (get (ack 3 4242) ''id'') \<and> get (ack 3 4242) ''result'' = Some (JNum 4242)
   \<and> truthy (Some (JNum 4242))
   \<and> subscriptionIds (fst (handleMessage constructor (Parsed (ack 3 4242)))) = [JNum 4242]"
  using C2_ack_adds_subscription_id [of "ack 3 4242" "JNum 4242" constructor]
  by (simp add: ack_def set_add_def set_has_def constructor_def)

section \<open>Properties of the dedup cache\<close>

lemma length_slice_last: "length (slice_last n xs) = min n (length xs)"
  by (simp add: slice_last_def)

lemma slice_last_snoc: "0 < n \<Longrightarrow> slice_last n (xs @ [x]) = slice_last (n - 1) xs @ [x]"
  by (simp add: slice_last_def)

lemma handleLogNotification_cache:
  "processedTransactions (fst (handleLogNotification s e)) = processedTransactions s
   \<or> (\<exists>signature. processedTransactions (fst (handleLogNotification s e)) =
        (if length (processedTransactions s @ [signature]) > 1000
         then slice_last 500 (processedTransactions s @ [signature])
         else processedTransactions s @ [signature]))"
  by (auto simp: handleLogNotification_def Let_def set_add_def
      split: option.splits json.splits sum.splits bool.splits)

lemma cache_bound:
  assumes "length (processedTransactions s) \<le> 1000"
  shows "length (processedTransactions (fst (handleLogNotification s e))) \<le> 1000"
proof -
  from handleLogNotification_cache [of s e] consider
    "processedTransactions (fst (handleLogNotification s e)) = processedTransactions s"
    | signature where "processedTransactions (fst (handleLogNotification s e)) =
        (if length (processedTransactions s @ [signature]) > 1000
         then slice_last 500 (processedTransactions s @ [signature])
         else processedTransactions s @ [signature])"
    by blast
  then show ?thesis
  proof cases
    case 1
    with assms show ?thesis by simp
  next
    case 2
    show ?thesis
      unfolding 2 by (simp add: length_slice_last)
  qed
qed

lemma deliver_bound:
  "length (processedTransactions s) \<le> 1000 \<Longrightarrow>
   length (processedTransactions (deliver s es)) \<le> 1000"
  unfolding deliver_def
  by (induction es arbitrary: s) (auto simp: cache_bound)

lemma novel_cache:
  assumes "opt_get (opt_get logEntry ''value'') ''signature'' = Some signature"
    and "truthy (Some signature)" and "\<not> set_has (processedTransactions s) signature"
  shows "processedTransactions (fst (handleLogNotification s logEntry)) =
        (if length (processedTransactions s) \<ge> 1000
         then slice_last 500 (processedTransactions s @ [signature])
         else processedTransactions s @ [signature])"
  using assms
  by (auto simp: handleLogNotification_def Let_def set_add_def
      split: option.splits json.splits sum.splits bool.splits)

lemma full_cache_facts: "length full_cache = 1000" "\<not> set_has full_cache (JStr ''b'')"
  by (auto simp: full_cache_def set_has_def Cons_replicate_eq)


text \<open>
  Claim C3. Whatever notifications are delivered to a fresh monitor, one after the other,
  the dedup cache \<^verbatim>\<open>processedTransactions\<close> holds at most 1000 signatures after each
  of them. A new signature delivered to a cache of fewer than 1000 entries is appended
  and nothing is evicted. A new signature delivered to a cache of exactly 1000 entries
  makes it 1001, and the cache is cut to exactly 500: the 499 newest of the old entries,
  in their order, followed by the new signature; the 501 oldest are gone.
\<close>

theorem C3_dedup_cache_capacity:
  "length (processedTransactions (deliver constructor logEntries)) \<le> 1000
   \<and> (opt_get (opt_get logEntry ''value'') ''signature'' = Some signature
        \<and> truthy (Some signature) \<and> \<not> set_has (processedTransactions s) signature \<longrightarrow>
      (length (processedTransactions s) < 1000 \<longrightarrow>
         processedTransactions (fst (handleLogNotification s logEntry))
           = processedTransactions s @ [signature])
      \<and> (length (processedTransactions s) = 1000 \<longrightarrow>
         processedTransactions (fst (handleLogNotification s logEntry))
           = drop 501 (processedTransactions s) @ [signature]
         \<and> length (processedTransactions (fst (handleLogNotification s logEntry))) = 500))"
proof (intro conjI impI)
  show "length (processedTransactions (deliver constructor logEntries)) \<le> 1000"
    by (rule deliver_bound) (simp add: constructor_def)
next
  assume h: "opt_get (opt_get logEntry ''value'') ''signature'' = Some signature
        \<and> truthy (Some signature) \<and> \<not> set_has (processedTransactions s) signature"
    and "length (processedTransactions s) < 1000"
  then show "processedTransactions (fst (handleLogNotification s logEntry))
           = processedTransactions s @ [signature]"
    using novel_cache [of logEntry signature s] by simp
next
  assume h: "opt_get (opt_get logEntry ''value'') ''signature'' = Some signature
        \<and> truthy (Some signature) \<and> \<not> set_has (processedTransactions s) signature"
    and full: "length (processedTransactions s) = 1000"
  then have eq: "processedTransactions (fst (handleLogNotification s logEntry))
           = drop 501 (processedTransactions s) @ [signature]"
    using novel_cache [of logEntry signature s] by (simp add: slice_last_def)
  then show "processedTransactions (fst (handleLogNotification s logEntry))
           = drop 501 (processedTransactions s) @ [signature]" .
  from eq full show "length (processedTransactions (fst (handleLogNotification s logEntry))) = 500"
    by simp
qed

theorem C3_witness:
  "opt_get (opt_get (Some (notification 7 ''b'' [])) ''value'') ''signature'' = Some (JStr ''b'')
   \<and> truthy (Some (JStr ''b''))
   \<and> \<not> set_has (processedTransactions (constructor\<lparr>processedTransactions := full_cache\<rparr>)) (JStr ''b'')
   \<and> length (processedTransactions (constructor\<lparr>processedTransactions := full_cache\<rparr>)) = 1000
   \<and> processedTransactions (fst (handleLogNotification
        (constructor\<lparr>processedTransactions := full_cache\<rparr>) (Some (notification 7 ''b'' []))))
      = drop 501 full_cache @ [JStr ''b'']
   \<and> \<not> set_has (processedTransactions constructor) (JStr ''b'')
   \<and> length (processedTransactions constructor) < 1000
   \<and> processedTransactions (fst (handleLogNotification constructor (Some (notification 7 ''b'' []))))
      = [JStr ''b'']"
  using C3_dedup_cache_capacity
      [of "[]" "Some (notification 7 ''b'' [])" "JStr ''b''"
          "constructor\<lparr>processedTransactions := full_cache\<rparr>"]
    C3_dedup_cache_capacity
      [of "[]" "Some (notification 7 ''b'' [])" "JStr ''b''" constructor]
    full_cache_facts
  by (simp add: notification_def constructor_def set_has_def)

text \<open>
  Claim C10. A notification without a usable signature (no payload, no
  \<^verbatim>\<open>value\<close>, no \<^verbatim>\<open>signature\<close> in it, or a signature that is \<^verbatim>\<open>null\<close> or empty)
  leaves the monitor as it was, the dedup cache included, and causes nothing: no
  classification, no extraction, no write to the store.
\<close>

theorem C10_no_signature_no_change:
  assumes "\<not> truthy (opt_get (opt_get logEntry ''value'') ''signature'')"
  shows "handleLogNotification s logEntry = (s, [])"
  using assms by (auto simp: handleLogNotification_def split: option.splits)

theorem C10_witness:
  "\<not> truthy (opt_get (opt_get (Some (JObj [(''context'', JObj [(''slot'', JNum 9)]),
        (''value'', JObj [(''err'', JNull), (''logs'', JArr [JStr ''swap''])])])) ''value'') ''signature'')
   \<and> handleLogNotification (constructor\<lparr>processedTransactions := [JStr ''b'']\<rparr>)
        (Some (JObj [(''context'', JObj [(''slot'', JNum 9)]),
           (''value'', JObj [(''err'', JNull), (''logs'', JArr [JStr ''swap''])])]))
      = (constructor\<lparr>processedTransactions := [JStr ''b'']\<rparr>, [])
   \<and> \<not> truthy (opt_get (opt_get None ''value'') ''signature'')
   \<and> handleLogNotification constructor None = (constructor, [])"
  using C10_no_signature_no_change
      [of "Some (JObj [(''context'', JObj [(''slot'', JNum 9)]),
           (''value'', JObj [(''err'', JNull), (''logs'', JArr [JStr ''swap''])])])"
          "constructor\<lparr>processedTransactions := [JStr ''b'']\<rparr>"]
    C10_no_signature_no_change [of None constructor]
  by simp


section \<open>Properties of the notification pipeline\<close>

lemma novel_effects:
  assumes "opt_get (opt_get logEntry ''value'') ''signature'' = Some (JStr sig)"
    and "sig \<noteq> []" and "\<not> set_has (processedTransactions s) (JStr sig)"
  shows "\<exists>v. opt_get logEntry ''value'' = Some v \<and>
     snd (handleLogNotification s logEntry) =
       (case isDEXTransaction (get v ''logs'') of
          Inr True \<Rightarrow> quickWalletDiscovery sig v (opt_get logEntry ''context'')
        | _ \<Rightarrow> [])"
proof -
  from assms(1) obtain v where v: "opt_get logEntry ''value'' = Some v"
    by (cases "opt_get logEntry ''value''") auto
  with assms show ?thesis
    by (auto simp: handleLogNotification_def Let_def processTransaction_def
        split: sum.splits bool.splits)
qed

lemma quickWalletDiscovery_array:
  assumes "get v ''logs'' = Some (JArr ls)"
  shows "quickWalletDiscovery sig v ctx =
    (case extract_forEach [] ls of
       Inl e \<Rightarrow> []
     | Inr addrs \<Rightarrow> concat (map (\<lambda>a. analyzeWalletProfitability a sig ctx) addrs))"
  using assms by (simp add: quickWalletDiscovery_def)

lemma isDEX_True_array:
  "isDEXTransaction logs = Inr True \<Longrightarrow> \<exists>ls. logs = Some (JArr ls)"
  by (cases logs rule: isDEXTransaction.cases) auto

lemma concat_analyze:
  "concat (map (\<lambda>a. analyzeWalletProfitability a sig ctx) addrs) =
   map (\<lambda>a. Upsert ''candidate_wallets'' (candidate_row a sig (opt_get ctx ''slot''))
          ''wallet_address'') addrs"
  by (induction addrs) (auto simp: analyzeWalletProfitability_def candidate_row_def)

lemma swap_of_A_classified:
  "isDEXTransaction (Some (JArr [JStr (''Program log: swap wallet='' @ wallet_A)])) = Inr True"
  by (simp add: wallet_A_def ACTIVE_DEX_PROGRAMS_def RAYDIUM_def JUPITER_def ORCA_def
      PUMP_FUN_def METEORA_def OPENBOOK_def)

lemma swap_of_A_extracted:
  "extractWalletAddresses (JArr [JStr (''Program log: swap wallet='' @ wallet_A)])
     = Inr [wallet_A]"
  by (simp add: wallet_A_def base58_def in_range_def add_matches_def str_add_def)

lemma swap_of_A_fields:
  "opt_get (opt_get (Some swap_of_A) ''value'') ''signature'' = Some (JStr signature_A)"
  "opt_get (opt_get (Some swap_of_A) ''value'') ''logs''
     = Some (JArr [JStr (''Program log: swap wallet='' @ wallet_A)])"
  "opt_get (opt_get (Some swap_of_A) ''context'') ''slot'' = Some (JNum 1)"
  "signature_A \<noteq> []"
  by (simp_all add: swap_of_A_def notification_def signature_A_def)

text \<open>
  Claim C4. A notification whose signature is already in the dedup cache changes nothing
  in the monitor and causes nothing: no classification, no extraction, no write to the
  store. A notification whose signature (a non-empty string) is not in the cache is
  recorded there and goes to the classifier: unless the classifier accepts the logs
  nothing more happens, and when it accepts them the extractor runs on them and the sink
  issues one upsert into \<^verbatim>\<open>candidate_wallets\<close> per extracted address, in order, each
  carrying the signature and the slot.
\<close>

theorem C4_duplicate_discarded_novel_processed:
  assumes "opt_get (opt_get logEntry ''value'') ''signature'' = Some signature"
  shows "(set_has (processedTransactions s) signature \<longrightarrow>
            handleLogNotification s logEntry = (s, []))
    \<and> (\<not> set_has (processedTransactions s) signature \<and> signature = JStr sig \<and> sig \<noteq> [] \<longrightarrow>
          signature \<in> set (processedTransactions (fst (handleLogNotification s logEntry)))
        \<and> (isDEXTransaction (opt_get (opt_get logEntry ''value'') ''logs'') \<noteq> Inr True \<longrightarrow>
             snd (handleLogNotification s logEntry) = [])
        \<and> (isDEXTransaction (opt_get (opt_get logEntry ''value'') ''logs'') = Inr True \<longrightarrow>
             (\<exists>ls. opt_get (opt_get logEntry ''value'') ''logs'' = Some (JArr ls)
                \<and> snd (handleLogNotification s logEntry) =
                   (case extractWalletAddresses (JArr ls) of
                      Inl e \<Rightarrow> []
                    | Inr addresses \<Rightarrow>
                        map (\<lambda>a. Upsert ''candidate_wallets''
                               (candidate_row a sig (opt_get (opt_get logEntry ''context'') ''slot''))
                               ''wallet_address'') addresses))))"
proof (intro conjI impI)
  assume "set_has (processedTransactions s) signature"
  with assms show "handleLogNotification s logEntry = (s, [])"
    by (simp add: handleLogNotification_def)
next
  assume novel: "\<not> set_has (processedTransactions s) signature \<and> signature = JStr sig \<and> sig \<noteq> []"
  then have t: "truthy (Some signature)" and n: "\<not> set_has (processedTransactions s) signature"
    by auto
  have "processedTransactions (fst (handleLogNotification s logEntry)) =
        (if length (processedTransactions s) \<ge> 1000
         then slice_last 500 (processedTransactions s @ [signature])
         else processedTransactions s @ [signature])"
    by (rule novel_cache [OF assms t n])
  then show "signature \<in> set (processedTransactions (fst (handleLogNotification s logEntry)))"
    by (simp add: slice_last_snoc)
next
  assume novel: "\<not> set_has (processedTransactions s) signature \<and> signature = JStr sig \<and> sig \<noteq> []"
  assume no: "isDEXTransaction (opt_get (opt_get logEntry ''value'') ''logs'') \<noteq> Inr True"
  from novel assms novel_effects [of logEntry sig s] obtain v where
    v: "opt_get logEntry ''value'' = Some v"
    and fx: "snd (handleLogNotification s logEntry) =
       (case isDEXTransaction (get v ''logs'') of
          Inr True \<Rightarrow> quickWalletDiscovery sig v (opt_get logEntry ''context'')
        | _ \<Rightarrow> [])"
    by auto
  from no v show "snd (handleLogNotification s logEntry) = []"
    unfolding fx by (auto split: sum.splits bool.splits)
next
  assume novel: "\<not> set_has (processedTransactions s) signature \<and> signature = JStr sig \<and> sig \<noteq> []"
  assume yes: "isDEXTransaction (opt_get (opt_get logEntry ''value'') ''logs'') = Inr True"
  from novel assms novel_effects [of logEntry sig s] obtain v where
    v: "opt_get logEntry ''value'' = Some v"
    and fx: "snd (handleLogNotification s logEntry) =
       (case isDEXTransaction (get v ''logs'') of
          Inr True \<Rightarrow> quickWalletDiscovery sig v (opt_get logEntry ''context'')
        | _ \<Rightarrow> [])"
    by auto
  from yes v have yes': "isDEXTransaction (get v ''logs'') = Inr True" by simp
  then obtain ls where ls: "get v ''logs'' = Some (JArr ls)"
    using isDEX_True_array by blast
  show "\<exists>ls. opt_get (opt_get logEntry ''value'') ''logs'' = Some (JArr ls)
                \<and> snd (handleLogNotification s logEntry) =
                   (case extractWalletAddresses (JArr ls) of
                      Inl e \<Rightarrow> []
                    | Inr addresses \<Rightarrow>
                        map (\<lambda>a. Upsert ''candidate_wallets''
                               (candidate_row a sig (opt_get (opt_get logEntry ''context'') ''slot''))
                               ''wallet_address'') addresses)"
    unfolding fx yes' using v ls
    by (auto simp: quickWalletDiscovery_array concat_analyze split: sum.splits)
qed


theorem C4_witness:
  "opt_get (opt_get (Some swap_of_A) ''value'') ''signature'' = Some (JStr signature_A)
   \<and> set_has (processedTransactions (constructor\<lparr>processedTransactions := [JStr signature_A]\<rparr>))
        (JStr signature_A)
   \<and> handleLogNotification (constructor\<lparr>processedTransactions := [JStr signature_A]\<rparr>)
        (Some swap_of_A)
      = (constructor\<lparr>processedTransactions := [JStr signature_A]\<rparr>, [])
   \<and> \<not> set_has (processedTransactions constructor) (JStr signature_A)
   \<and> signature_A \<noteq> []
   \<and> isDEXTransaction (opt_get (opt_get (Some swap_of_A) ''value'') ''logs'') = Inr True
   \<and> JStr signature_A \<in> set (processedTransactions (fst (handleLogNotification constructor (Some swap_of_A))))
   \<and> snd (handleLogNotification constructor (Some swap_of_A))
      = [Upsert ''candidate_wallets'' (candidate_row wallet_A signature_A (Some (JNum 1)))
           ''wallet_address'']"
proof -
  let ?E = "Some swap_of_A"
  let ?dup = "constructor\<lparr>processedTransactions := [JStr signature_A]\<rparr>"
  note sig = swap_of_A_fields(1)
  have dup: "set_has (processedTransactions ?dup) (JStr signature_A)"
    by (simp add: set_has_def)
  have nov: "\<not> set_has (processedTransactions constructor) (JStr signature_A)"
    by (simp add: constructor_def set_has_def)
  have cls: "isDEXTransaction (opt_get (opt_get ?E ''value'') ''logs'') = Inr True"
    unfolding swap_of_A_fields(2) by (rule swap_of_A_classified)
  from C4_duplicate_discarded_novel_processed [OF sig, of ?dup signature_A] dup
  have r1: "handleLogNotification ?dup ?E = (?dup, [])"
    by blast
  from C4_duplicate_discarded_novel_processed [OF sig, of constructor signature_A]
    nov swap_of_A_fields(4) cls
  have r2: "JStr signature_A \<in> set (processedTransactions (fst (handleLogNotification constructor ?E)))"
    and r3: "\<exists>ls. opt_get (opt_get ?E ''value'') ''logs'' = Some (JArr ls)
                \<and> snd (handleLogNotification constructor ?E) =
                   (case extractWalletAddresses (JArr ls) of
                      Inl e \<Rightarrow> []
                    | Inr addresses \<Rightarrow>
                        map (\<lambda>a. Upsert ''candidate_wallets''
                               (candidate_row a signature_A (opt_get (opt_get ?E ''context'') ''slot''))
                               ''wallet_address'') addresses)"
    by blast+
  from r3 have r4: "snd (handleLogNotification constructor ?E)
      = [Upsert ''candidate_wallets'' (candidate_row wallet_A signature_A (Some (JNum 1)))
           ''wallet_address'']"
    unfolding swap_of_A_fields(2,3) using swap_of_A_extracted by auto
  from sig dup r1 nov swap_of_A_fields(4) cls r2 r4 show ?thesis
    by blast
qed

lemma effects_ignore_tracked:
  "snd (handleLogNotification (s\<lparr>trackedWallets := t\<rparr>) logEntry) = snd (handleLogNotification s logEntry)"
  by (auto simp: handleLogNotification_def Let_def split: option.splits json.splits sum.splits bool.splits)

lemma swap_of_A_effects:
  "snd (handleLogNotification constructor (Some swap_of_A))
      = [Upsert ''candidate_wallets'' (candidate_row wallet_A signature_A (Some (JNum 1)))
           ''wallet_address'']"
proof -
  have nov: "\<not> set_has (processedTransactions constructor) (JStr signature_A)"
    by (simp add: constructor_def set_has_def)
  from novel_effects [OF swap_of_A_fields(1) swap_of_A_fields(4) nov] obtain v where
    v: "opt_get (Some swap_of_A) ''value'' = Some v"
    and fx: "snd (handleLogNotification constructor (Some swap_of_A)) =
       (case isDEXTransaction (get v ''logs'') of
          Inr True \<Rightarrow> quickWalletDiscovery signature_A v (opt_get (Some swap_of_A) ''context'')
        | _ \<Rightarrow> [])"
    by blast
  from swap_of_A_fields(2) have logs:
    "get v ''logs'' = Some (JArr [JStr (''Program log: swap wallet='' @ wallet_A)])"
    unfolding v by simp
  have "extract_forEach [] [JStr (''Program log: swap wallet='' @ wallet_A)] = Inr [wallet_A]"
    using swap_of_A_extracted by simp
  then have "quickWalletDiscovery signature_A v (opt_get (Some swap_of_A) ''context'')
    = [Upsert ''candidate_wallets'' (candidate_row wallet_A signature_A (Some (JNum 1)))
           ''wallet_address'']"
    unfolding quickWalletDiscovery_array [OF logs] concat_analyze swap_of_A_fields(3)
    by simp
  then show ?thesis
    unfolding fx logs swap_of_A_classified by simp
qed

text \<open>
  Claim C9 says that an extracted address already in \<^verbatim>\<open>trackedWallets\<close> produces no
  candidate record. The sink does not look at \<^verbatim>\<open>trackedWallets\<close>: what a notification
  causes is the same whatever the tracked set is, and with \<open>wallet_A\<close> tracked, a
  transaction whose log names \<open>wallet_A\<close> makes the sink upsert a candidate row for
  \<open>wallet_A\<close>.
\<close>

theorem C9_tracked_wallet_upserted:
  "snd (handleLogNotification (s\<lparr>trackedWallets := tracked\<rparr>) logEntry)
     = snd (handleLogNotification s logEntry)
   \<and> wallet_A \<in> set (trackedWallets (constructor\<lparr>trackedWallets := [wallet_A]\<rparr>))
   \<and> snd (handleLogNotification (constructor\<lparr>trackedWallets := [wallet_A]\<rparr>) (Some swap_of_A))
      = [Upsert ''candidate_wallets'' (candidate_row wallet_A signature_A (Some (JNum 1)))
           ''wallet_address'']
   \<and> upserted (snd (handleLogNotification (constructor\<lparr>trackedWallets := [wallet_A]\<rparr>)
        (Some swap_of_A))) = [wallet_A]"
  by (simp add: effects_ignore_tracked swap_of_A_effects candidate_row_def)


section \<open>Properties of connection management\<close>

lemma handleLogNotification_backoff:
  "reconnectDelay (fst (handleLogNotification s e)) = reconnectDelay s"
  "reconnectAttempts (fst (handleLogNotification s e)) = reconnectAttempts s"
  by (auto simp: handleLogNotification_def Let_def
      split: option.splits json.splits sum.splits bool.splits)

lemma handleMessage_backoff:
  "reconnectDelay (fst (handleMessage s f)) = reconnectDelay s"
  "reconnectAttempts (fst (handleMessage s f)) = reconnectAttempts s"
  by (cases "(s, f)" rule: handleMessage.cases;
      auto simp: handleLogNotification_backoff split: option.splits)+

lemma loadTrackedWallets_backoff:
  "reconnectDelay (loadTrackedWallets s r) = reconnectDelay s"
  "reconnectAttempts (loadTrackedWallets s r) = reconnectAttempts s"
  by (cases r; simp)+

lemma handleReconnect_backoff:
  "reconnectAttempts s \<le> reconnectAttempts (fst (handleReconnect s))"
  "0 \<le> reconnectDelay s \<Longrightarrow> reconnectDelay s \<le> 60000 \<Longrightarrow>
     reconnectDelay s \<le> reconnectDelay (fst (handleReconnect s))"
  by (auto simp: handleReconnect_def min_def)

lemma step_no_reset:
  assumes "e \<noteq> Open"
  shows "reconnectAttempts s \<le> reconnectAttempts (fst (step s e))"
    and "0 \<le> reconnectDelay s \<Longrightarrow> reconnectDelay s \<le> 60000 \<Longrightarrow>
     reconnectDelay s \<le> reconnectDelay (fst (step s e))"
  using assms handleReconnect_backoff [of s]
    handleReconnect_backoff [of "s\<lparr>ws := Some CLOSED, isConnected := False, subscriptionIds := []\<rparr>"]
  by (cases e; auto simp: connect_def onclose_def onerror_def handleMessage_backoff
        loadTrackedWallets_backoff refreshTrackedWallets_def Let_def)+

lemma step_Open_reset:
  "reconnectDelay (fst (step s Open)) = 5000 \<and> reconnectAttempts (fst (step s Open)) = 0"
  by (simp add: onopen_def Let_def)

lemma handleReconnect_ok:
  assumes "5000 \<le> reconnectDelay s \<and> reconnectDelay s \<le> 60000"
  shows "5000 \<le> reconnectDelay (fst (handleReconnect s)) \<and> reconnectDelay (fst (handleReconnect s)) \<le> 60000"
    and "\<forall>d \<in> set (timeouts (snd (handleReconnect s))). 5000 \<le> d \<and> d \<le> 60000"
  using assms by (auto simp: handleReconnect_def min_def)

lemma timeouts_map_Send: "timeouts (map Send rs) = []"
  by (induction rs) auto

lemma timeouts_subscribeToLogs: "timeouts (subscribeToLogs s) = []"
  by (subst only_sends_subscribeToLogs) (rule timeouts_map_Send)

lemma timeouts_append: "timeouts (es @ fs) = timeouts es @ timeouts fs"
  by (induction es rule: timeouts.induct) auto

lemma timeouts_analyze:
  "timeouts (concat (map (\<lambda>a. analyzeWalletProfitability a sig ctx) addrs)) = []"
  by (induction addrs) (auto simp: analyzeWalletProfitability_def)

lemma timeouts_quickWalletDiscovery: "timeouts (quickWalletDiscovery sig v ctx) = []"
  by (simp add: quickWalletDiscovery_def Let_def timeouts_analyze split: sum.splits)

lemma timeouts_handleLogNotification: "timeouts (snd (handleLogNotification s e)) = []"
  by (auto simp: handleLogNotification_def Let_def processTransaction_def
      timeouts_quickWalletDiscovery
      split: option.splits json.splits sum.splits bool.splits)

lemma timeouts_handleMessage: "timeouts (snd (handleMessage s f)) = []"
  by (cases "(s, f)" rule: handleMessage.cases;
      auto simp: timeouts_handleLogNotification split: option.splits)

lemma step_ok:
  assumes "5000 \<le> reconnectDelay s \<and> reconnectDelay s \<le> 60000"
  shows "5000 \<le> reconnectDelay (fst (step s e)) \<and> reconnectDelay (fst (step s e)) \<le> 60000"
    and "\<forall>d \<in> set (timeouts (snd (step s e))). 5000 \<le> d \<and> d \<le> 60000"
proof -
  have "(5000 \<le> reconnectDelay (fst (step s e)) \<and> reconnectDelay (fst (step s e)) \<le> 60000)
    \<and> (\<forall>d \<in> set (timeouts (snd (step s e))). 5000 \<le> d \<and> d \<le> 60000)"
  proof (cases e)
    case (Connect created)
    with assms handleReconnect_ok [OF assms] show ?thesis
      by (simp add: connect_def)
  next
    case Open
    then show ?thesis
      by (simp add: onopen_def Let_def timeouts_subscribeToLogs)
  next
    case Close
    have "5000 \<le> reconnectDelay (s\<lparr>ws := Some CLOSED, isConnected := False, subscriptionIds := []\<rparr>)
       \<and> reconnectDelay (s\<lparr>ws := Some CLOSED, isConnected := False, subscriptionIds := []\<rparr>) \<le> 60000"
      using assms by simp
    from handleReconnect_ok [OF this] Close show ?thesis
      by (simp add: onclose_def)
  next
    case Error
    with assms show ?thesis by (simp add: onerror_def)
  next
    case (Message data)
    with assms show ?thesis
      by (simp add: handleMessage_backoff timeouts_handleMessage)
  next
    case (WalletsLoaded r)
    with assms show ?thesis by (simp add: loadTrackedWallets_backoff)
  next
    case (Refresh r)
    with assms show ?thesis
      by (simp add: refreshTrackedWallets_def Let_def loadTrackedWallets_backoff
          timeouts_subscribeToLogs)
  qed
  then show "5000 \<le> reconnectDelay (fst (step s e)) \<and> reconnectDelay (fst (step s e)) \<le> 60000"
    and "\<forall>d \<in> set (timeouts (snd (step s e))). 5000 \<le> d \<and> d \<le> 60000"
    by blast+
qed

lemma run_ok:
  assumes "5000 \<le> reconnectDelay s \<and> reconnectDelay s \<le> 60000"
  shows "(5000 \<le> reconnectDelay (fst (run s es)) \<and> reconnectDelay (fst (run s es)) \<le> 60000)
    \<and> (\<forall>d \<in> set (timeouts (snd (run s es))). 5000 \<le> d \<and> d \<le> 60000)"
  using assms
proof (induction es arbitrary: s)
  case Nil
  then show ?case by simp
next
  case (Cons e es)
  obtain s' out where st: "step s e = (s', out)" by (cases "step s e")
  obtain s'' out' where rn: "run s' es = (s'', out')" by (cases "run s' es")
  from step_ok [OF Cons.prems, of e] st
  have ok': "5000 \<le> reconnectDelay s' \<and> reconnectDelay s' \<le> 60000"
    and t1: "\<forall>d \<in> set (timeouts out). 5000 \<le> d \<and> d \<le> 60000"
    by simp_all
  from Cons.IH [OF ok'] rn
  have ok'': "5000 \<le> reconnectDelay s'' \<and> reconnectDelay s'' \<le> 60000"
    and t2: "\<forall>d \<in> set (timeouts out'). 5000 \<le> d \<and> d \<le> 60000"
    by simp_all
  have r: "run s (e # es) = (if ProcessExit 1 \<in> set out then (s', out) else (s'', out @ out'))"
    by (simp add: st rn)
  show ?case
  proof (cases "ProcessExit 1 \<in> set out")
    case True
    with r ok' t1 show ?thesis by simp
  next
    case False
    with r ok'' t1 t2 show ?thesis by (auto simp: timeouts_append)
  qed
qed

lemma floor_fifth_delay: "\<lfloor>50625 / 2 :: rat\<rfloor> = 25312"
  by (simp add: floor_unique)

lemma ten_failed_attempts:
  "timeouts (snd (run constructor
      [Connect True, Close, Connect True, Close, Connect True, Close, Connect True, Close,
       Connect True, Close, Connect True, Close, Connect True, Close, Connect True, Close,
       Connect True, Close, Connect True, Close]))
     = [5000, 7500, 11250, 16875, 50625 / 2, 151875 / 4, 455625 / 8, 60000, 60000, 60000]"
  by (simp add: constructor_def connect_def onclose_def handleReconnect_def Let_def)

text \<open>
  Claim C5. The reconnect delay starts at 5000 ms and the attempt counter at 0. A
  reconnect below the ceiling arms the timer with the current delay and then sets the
  delay to \<open>min (delay * 1.5) 60000\<close>. Ten failed attempts in a row wait 5000, 7500,
  11250, 16875, 25312.5 (whose whole part is 25312), 37968.75, 56953.125, 60000, 60000
  and 60000 ms. Whatever happens to a fresh monitor, no timer is armed with more than
  60000 ms (or less than 5000) and the delay never exceeds 60000. The socket opening
  sets the delay to 5000 and the counter to 0; nothing else that happens lowers either.
\<close>

theorem C5_reconnect_backoff:
  "reconnectDelay constructor = 5000 \<and> reconnectAttempts constructor = 0
   \<and> (reconnectAttempts s < maxReconnectAttempts s \<longrightarrow>
        handleReconnect s =
          (s\<lparr>reconnectAttempts := reconnectAttempts s + 1,
             reconnectDelay := min (reconnectDelay s * (3 / 2)) 60000\<rparr>,
           [SetTimeout (reconnectDelay s)]))
   \<and> timeouts (snd (run constructor
        [Connect True, Close, Connect True, Close, Connect True, Close, Connect True, Close,
         Connect True, Close, Connect True, Close, Connect True, Close, Connect True, Close,
         Connect True, Close, Connect True, Close]))
       = [5000, 7500, 11250, 16875, 50625 / 2, 151875 / 4, 455625 / 8, 60000, 60000, 60000]
   \<and> \<lfloor>50625 / 2 :: rat\<rfloor> = 25312
   \<and> (\<forall>d \<in> set (timeouts (snd (run constructor events))). 5000 \<le> d \<and> d \<le> 60000)
   \<and> reconnectDelay (fst (run constructor events)) \<le> 60000
   \<and> reconnectDelay (fst (step s Open)) = 5000 \<and> reconnectAttempts (fst (step s Open)) = 0
   \<and> (e \<noteq> Open \<longrightarrow>
        reconnectAttempts s \<le> reconnectAttempts (fst (step s e))
        \<and> (0 \<le> reconnectDelay s \<and> reconnectDelay s \<le> 60000 \<longrightarrow>
             reconnectDelay s \<le> reconnectDelay (fst (step s e))))"
proof -
  have ok: "5000 \<le> reconnectDelay constructor \<and> reconnectDelay constructor \<le> 60000"
    by (simp add: constructor_def)
  have a: "reconnectDelay constructor = 5000 \<and> reconnectAttempts constructor = 0"
    by (simp add: constructor_def)
  have b: "reconnectAttempts s < maxReconnectAttempts s \<longrightarrow>
        handleReconnect s =
          (s\<lparr>reconnectAttempts := reconnectAttempts s + 1,
             reconnectDelay := min (reconnectDelay s * (3 / 2)) 60000\<rparr>,
           [SetTimeout (reconnectDelay s)])"
    by (simp add: handleReconnect_def)
  have c: "e \<noteq> Open \<longrightarrow>
        reconnectAttempts s \<le> reconnectAttempts (fst (step s e))
        \<and> (0 \<le> reconnectDelay s \<and> reconnectDelay s \<le> 60000 \<longrightarrow>
             reconnectDelay s \<le> reconnectDelay (fst (step s e)))"
    using step_no_reset [of e s] by blast
  from a b c ten_failed_attempts floor_fifth_delay run_ok [OF ok, of events] step_Open_reset [of s]
  show ?thesis by blast
qed

theorem C5_witness:
  "reconnectAttempts constructor < maxReconnectAttempts constructor
   \<and> handleReconnect constructor
       = (constructor\<lparr>reconnectAttempts := 1, reconnectDelay := 7500\<rparr>, [SetTimeout 5000])
   \<and> set (timeouts (snd (run constructor [Connect True, Close, Connect True, Close])))
       = {5000, 7500}
   \<and> Close \<noteq> Open
   \<and> 0 \<le> reconnectDelay (constructor\<lparr>reconnectDelay := 7500, reconnectAttempts := 1\<rparr>)
   \<and> reconnectDelay (constructor\<lparr>reconnectDelay := 7500, reconnectAttempts := 1\<rparr>) \<le> 60000
   \<and> reconnectDelay (fst (step (constructor\<lparr>reconnectDelay := 7500, reconnectAttempts := 1\<rparr>) Close))
       = 11250
   \<and> reconnectAttempts (fst (step (constructor\<lparr>reconnectDelay := 7500, reconnectAttempts := 1\<rparr>) Close))
       = 2"
  using C5_reconnect_backoff [of constructor "[Connect True, Close, Connect True, Close]" Close]
    C5_reconnect_backoff [of "constructor\<lparr>reconnectDelay := 7500, reconnectAttempts := 1\<rparr>" "[]" Close]
  by (simp add: constructor_def connect_def onclose_def handleReconnect_def Let_def)

lemma ws_loadTrackedWallets: "ws (loadTrackedWallets s r) = ws s"
  "isConnected (loadTrackedWallets s r) = isConnected s"
  by (cases r; simp)+

text \<open>
  Claim C6, as stated, fails: within one connection the request ids are reused. The
  connection opens (requests 1 to 6) and, still connected, the periodic refresh loads one
  tracked wallet and resubscribes (requests 1 to 7).
\<close>

theorem C6_counterexample:
  "map req_id (sent (snd (run constructor [Connect True, Open, Refresh (Loaded [wallet_A])])))
     = [1, 2, 3, 4, 5, 6, 1, 2, 3, 4, 5, 6, 7]
   \<and> \<not> distinct (map req_id
          (sent (snd (run constructor [Connect True, Open, Refresh (Loaded [wallet_A])]))))"
  by (simp add: constructor_def connect_def onopen_def refreshTrackedWallets_def
      subscribeToLogs_def forEach_subscribe_def subscribeMessage_def ACTIVE_DEX_PROGRAMS_def
      str_set_of_def str_add_def Let_def)

text \<open>
  Claim C6, amended. Within one call of \<^verbatim>\<open>subscribeToLogs\<close> on an open socket the
  request ids are 1, 2, ..., \<open>6 + W\<close> in sending order, strictly increasing. Every call
  starts again at 1, the one made when the socket opens as well as the one made by
  \<^verbatim>\<open>refreshTrackedWallets\<close> while connected, so ids are not unique across the calls
  of one connection.
\<close>

theorem C6_ids_restart:
  assumes "ws s = Some OPEN"
  shows "map req_id (sent (subscribeToLogs s)) = [1 ..< 7 + length (trackedWallets s)]
    \<and> sorted_wrt (<) (map req_id (sent (subscribeToLogs s)))
    \<and> map req_id (sent (snd (step s Open)))
        = [1 ..< 7 + length (trackedWallets s)]
    \<and> (isConnected s \<longrightarrow>
         map req_id (sent (snd (step s (Refresh r))))
           = [1 ..< 7 + length (trackedWallets (loadTrackedWallets s r))])"
proof -
  have ids: "map req_id (sent (subscribeToLogs s')) = [1 ..< 7 + length (trackedWallets s')]"
    if "ws s' = Some OPEN" for s'
    using ids_subscribeToLogs [OF that] by (simp add: length_ACTIVE_DEX_PROGRAMS)
  have open_ids: "map req_id (sent (snd (step s Open))) = [1 ..< 7 + length (trackedWallets s)]"
    using ids [of "s\<lparr>ws := Some OPEN, isConnected := True, reconnectAttempts := 0, reconnectDelay := 5000\<rparr>"]
    by (simp add: onopen_def Let_def)
  have refresh_ids: "isConnected s \<longrightarrow>
         map req_id (sent (snd (step s (Refresh r))))
           = [1 ..< 7 + length (trackedWallets (loadTrackedWallets s r))]"
    using ids [of "loadTrackedWallets s r"] assms
    by (simp add: refreshTrackedWallets_def Let_def ws_loadTrackedWallets)
  have "sorted_wrt (<) (map req_id (sent (subscribeToLogs s)))"
    unfolding ids [OF assms] by simp
  with ids [OF assms] open_ids refresh_ids show ?thesis by blast
qed

theorem C6_witness:
  "ws (constructor\<lparr>ws := Some OPEN, isConnected := True\<rparr>) = Some OPEN
   \<and> isConnected (constructor\<lparr>ws := Some OPEN, isConnected := True\<rparr>)
   \<and> map req_id (sent (subscribeToLogs (constructor\<lparr>ws := Some OPEN, isConnected := True\<rparr>)))
      = [1, 2, 3, 4, 5, 6]
   \<and> map req_id (sent (snd (step (constructor\<lparr>ws := Some OPEN, isConnected := True\<rparr>)
         (Refresh (Loaded [wallet_A])))))
      = [1, 2, 3, 4, 5, 6, 7]"
  using C6_ids_restart [of "constructor\<lparr>ws := Some OPEN, isConnected := True\<rparr>" "Loaded [wallet_A]"]
  by (simp add: constructor_def str_set_of_def str_add_def upt_rec)


section \<open>Properties of the classifier\<close>

lemma str_includes_iff: "str_includes s t \<longleftrightarrow> (\<exists>ps ss. s = ps @ t @ ss)"
proof -
  have "str_includes s t \<longleftrightarrow> sublist t s"
    by (induction s) (simp_all add: sublist_Cons_right)
  then show ?thesis by (simp add: sublist_def)
qed

lemma dexCallback_line:
  "dexCallback (JStr line) = Inr
     ((\<exists>programId \<in> {RAYDIUM, JUPITER, ORCA, PUMP_FUN, METEORA, OPENBOOK}.
         \<exists>ps ss. line = ps @ programId @ ss)
      \<or> (\<exists>keyword \<in> {''swap'', ''trade'', ''exchange''}. \<exists>ps ss. line = ps @ keyword @ ss))"
  by (simp add: list_ex_iff ACTIVE_DEX_PROGRAMS_def str_includes_iff)

lemma some_dex_lines:
  "some_dex (map JStr lines) = Inr (\<exists>line \<in> set lines. dexCallback (JStr line) = Inr True)"
proof (induction lines)
  case Nil
  then show ?case by simp
next
  case (Cons line lines)
  show ?case
  proof (cases "dexCallback (JStr line) = Inr True")
    case True
    then show ?thesis by simp
  next
    case False
    then have "dexCallback (JStr line) = Inr False"
      by (metis dexCallback.simps(1))
    with Cons.IH show ?thesis by simp
  qed
qed

text \<open>
  Claim C7. On a list of log lines \<^verbatim>\<open>isDEXTransaction\<close> returns true if and only
  if some line contains, as a substring, one of the six DEX program ids or one of the
  keywords \<^verbatim>\<open>swap\<close>, \<^verbatim>\<open>trade\<close>, \<^verbatim>\<open>exchange\<close>; otherwise, and on the empty
  list, it returns false.
\<close>

theorem C7_isDEXTransaction_iff:
  "isDEXTransaction (Some (JArr (map JStr lines))) = Inr
     (\<exists>line \<in> set lines.
        (\<exists>programId \<in> {RAYDIUM, JUPITER, ORCA, PUMP_FUN, METEORA, OPENBOOK}.
           \<exists>ps ss. line = ps @ programId @ ss)
        \<or> (\<exists>keyword \<in> {''swap'', ''trade'', ''exchange''}. \<exists>ps ss. line = ps @ keyword @ ss))
   \<and> isDEXTransaction (Some (JArr [])) = Inr False"
proof -
  have "isDEXTransaction (Some (JArr (map JStr lines)))
      = Inr (\<exists>line \<in> set lines. dexCallback (JStr line) = Inr True)"
    by (simp add: some_dex_lines)
  also have "\<dots> = Inr
     (\<exists>line \<in> set lines.
        (\<exists>programId \<in> {RAYDIUM, JUPITER, ORCA, PUMP_FUN, METEORA, OPENBOOK}.
           \<exists>ps ss. line = ps @ programId @ ss)
        \<or> (\<exists>keyword \<in> {''swap'', ''trade'', ''exchange''}. \<exists>ps ss. line = ps @ keyword @ ss))"
    unfolding dexCallback_line by simp
  finally show ?thesis by simp
qed

theorem C7_witness:
  "isDEXTransaction (Some (JArr (map JStr
      [''Program log: Instruction: Transfer'', ''Program log: swap 10 for 20'']))) = Inr True
   \<and> isDEXTransaction (Some (JArr (map JStr
      [''Program '' @ JUPITER @ '' invoke [1]'']))) = Inr True
   \<and> isDEXTransaction (Some (JArr (map JStr []))) = Inr False"
proof -
  have k: "''Program log: swap 10 for 20'' = ''Program log: '' @ ''swap'' @ '' 10 for 20''"
    by simp
  have p: "''Program '' @ JUPITER @ '' invoke [1]'' = ''Program '' @ JUPITER @ '' invoke [1]''"
    by simp
  from k have "\<exists>line \<in> set [''Program log: Instruction: Transfer'', ''Program log: swap 10 for 20''].
        (\<exists>programId \<in> {RAYDIUM, JUPITER, ORCA, PUMP_FUN, METEORA, OPENBOOK}.
           \<exists>ps ss. line = ps @ programId @ ss)
        \<or> (\<exists>keyword \<in> {''swap'', ''trade'', ''exchange''}. \<exists>ps ss. line = ps @ keyword @ ss)"
    by (metis insertI1 list.set_intros(1,2))
  moreover from p have "\<exists>line \<in> set [''Program '' @ JUPITER @ '' invoke [1]''].
        (\<exists>programId \<in> {RAYDIUM, JUPITER, ORCA, PUMP_FUN, METEORA, OPENBOOK}.
           \<exists>ps ss. line = ps @ programId @ ss)
        \<or> (\<exists>keyword \<in> {''swap'', ''trade'', ''exchange''}. \<exists>ps ss. line = ps @ keyword @ ss)"
    by (metis insertI1 insertI2 list.set_intros(1))
  ultimately show ?thesis
    using C7_isDEXTransaction_iff [of "[''Program log: Instruction: Transfer'', ''Program log: swap 10 for 20'']"]
      C7_isDEXTransaction_iff [of "[''Program '' @ JUPITER @ '' invoke [1]'']"]
      C7_isDEXTransaction_iff [of "[]"]
    by simp
qed


section \<open>Properties of wallet extraction\<close>

lemma takeWhile_take_comm: "takeWhile P (take n xs) = take n (takeWhile P xs)"
proof (induction xs arbitrary: n)
  case Nil
  then show ?case by simp
next
  case (Cons x xs)
  then show ?case by (cases n) auto
qed

lemma takeWhile_run:
  assumes "\<forall>c \<in> set r. base58 c" and "rest = [] \<or> \<not> base58 (hd rest)"
  shows "takeWhile base58 (r @ rest) = r"
  using assms by (cases rest) (auto simp: takeWhile_append2)

lemma match_all_run:
  assumes "\<forall>c \<in> set r. base58 c" and "rest = [] \<or> \<not> base58 (hd rest)"
  shows "match_all (r @ rest) = chunks r @ match_all rest"
  using assms(1)
proof (induction r rule: length_induct)
  case (1 r)
  show ?case
  proof (cases r)
    case Nil
    then show ?thesis by (simp add: chunks.simps)
  next
    case (Cons c r')
    have all': "\<forall>c \<in> set r'. base58 c" and alld: "\<forall>c \<in> set (drop 44 r). base58 c"
      using "1.prems" Cons by (auto dest: in_set_dropD)
    have m: "takeWhile base58 (take 44 ((c # r') @ rest)) = take 44 r"
      unfolding takeWhile_take_comm using takeWhile_run [OF "1.prems" assms(2)] Cons by simp
    show ?thesis
    proof (cases "32 \<le> length r")
      case True
      have d: "drop (length (take 44 r)) (r @ rest) = drop 44 r @ rest"
        by (cases "44 \<le> length r") (simp_all add: min_def)
      have "match_all (r @ rest) = take 44 r # match_all (drop 44 r @ rest)"
        using True m d Cons by (simp add: Let_def del: take_Cons_numeral drop_Cons_numeral)
      also have "match_all (drop 44 r @ rest) = chunks (drop 44 r) @ match_all rest"
        using "1.IH" alld Cons by simp
      finally show ?thesis
        using True by (subst chunks.simps) simp
    next
      case False
      have "match_all (r @ rest) = match_all (r' @ rest)"
        using False m Cons by (simp add: Let_def del: take_Cons_numeral drop_Cons_numeral)
      also have "\<dots> = chunks r' @ match_all rest"
        using "1.IH" all' Cons by simp
      also have "chunks r' = []"
        using False Cons by (subst chunks.simps) simp
      finally show ?thesis
        using False by (subst chunks.simps) simp
    qed
  qed
qed

lemma match_all_runs: "match_all s = concat (map chunks (runs s))"
proof (induction s rule: runs.induct)
  case 1
  then show ?case by simp
next
  case (2 c cs)
  show ?case
  proof (cases "base58 c")
    case True
    let ?r = "takeWhile base58 (c # cs)" and ?rest = "dropWhile base58 cs"
    have split: "c # cs = ?r @ ?rest"
      using True by simp
    have "\<forall>c \<in> set ?r. base58 c"
      by (auto dest: set_takeWhileD)
    moreover have "?rest = [] \<or> \<not> base58 (hd ?rest)"
      using hd_dropWhile [of base58 cs] by blast
    ultimately have "match_all (?r @ ?rest) = chunks ?r @ match_all ?rest"
      by (rule match_all_run)
    with split 2(1) [OF True] True show ?thesis
      by (simp del: match_all.simps)
  next
    case False
    with 2(2) show ?thesis by simp
  qed
qed

lemma chunks_short: "length r < 32 \<Longrightarrow> chunks r = []"
  by (subst chunks.simps) simp

lemma chunks_whole: "32 \<le> length r \<Longrightarrow> length r \<le> 44 \<Longrightarrow> chunks r = [r]"
  by (subst chunks.simps) (simp add: chunks_short)

lemma chunks_long: "44 < length r \<Longrightarrow> chunks r = take 44 r # chunks (drop 44 r)"
  by (subst chunks.simps) simp

lemma chunks_lengths: "m \<in> set (chunks r) \<Longrightarrow> 32 \<le> length m \<and> length m \<le> 44"
proof (induction r rule: chunks.induct)
  case (1 r)
  show ?case
  proof (cases "length r < 32")
    case True
    with "1.prems" show ?thesis by (simp add: chunks_short)
  next
    case False
    with "1.prems" have "m = take 44 r \<or> m \<in> set (chunks (drop 44 r))"
      by (subst (asm) chunks.simps) auto
    with False "1.IH" show ?thesis by auto
  qed
qed

lemma match_all_lengths: "m \<in> set (match_all s) \<Longrightarrow> 32 \<le> length m \<and> length m \<le> 44"
  unfolding match_all_runs by (auto dest: chunks_lengths)

lemma add_matches_str_add:
  assumes "\<forall>m \<in> set ms. 32 \<le> length m \<and> length m \<le> 44"
  shows "add_matches acc ms = foldl str_add acc ms"
  using assms unfolding add_matches_def
  by (induction ms arbitrary: acc) auto

lemma extract_forEach_lines:
  "extract_forEach acc (map JStr lines) = Inr (foldl str_add acc (concat (map match_all lines)))"
proof (induction lines arbitrary: acc)
  case Nil
  then show ?case by simp
next
  case (Cons line lines)
  have "add_matches acc (match_all line) = foldl str_add acc (match_all line)"
    by (rule add_matches_str_add) (auto dest: match_all_lengths)
  with Cons.IH show ?case by simp
qed

lemma chunks_bounded_runs:
  assumes "\<forall>r \<in> set rs. length r \<le> 44"
  shows "concat (map chunks rs) = filter (\<lambda>r. 32 \<le> length r \<and> length r \<le> 44) rs"
  using assms
proof (induction rs)
  case Nil
  then show ?case by simp
next
  case (Cons r rs)
  then show ?case
    by (cases "32 \<le> length r") (simp_all add: chunks_whole chunks_short)
qed

text \<open>
  \<open>runs\<close> is determined by two facts: a non-empty string of class characters is its
  own single run, and a character outside the class separates the runs before it from
  the runs behind it.
\<close>

lemma takeWhile_before_sep: "\<not> P sep \<Longrightarrow> takeWhile P (cs @ sep # b) = takeWhile P cs"
  by (induction cs) auto

lemma dropWhile_before_sep: "\<not> P sep \<Longrightarrow> dropWhile P (cs @ sep # b) = dropWhile P cs @ sep # b"
  by (induction cs) auto

lemma runs_single:
  assumes "r \<noteq> []" and "\<forall>c \<in> set r. base58 c"
  shows "runs r = [r]"
proof (cases r)
  case Nil
  with assms show ?thesis by simp
next
  case (Cons c cs)
  with assms have d: "dropWhile base58 cs = []" and t: "takeWhile base58 cs = cs"
    by simp_all
  from Cons assms have "base58 c" by simp
  then show ?thesis
    unfolding Cons by (simp add: d t)
qed

lemma runs_separator: "\<not> base58 sep \<Longrightarrow> runs (a @ sep # b) = runs a @ runs b"
proof (induction a rule: runs.induct)
  case 1
  then show ?case by simp
next
  case (2 c cs)
  then show ?case
    by (auto simp: takeWhile_before_sep dropWhile_before_sep)
qed

lemma extract_run_of_45: "extractWalletAddresses (JArr [JStr (wallet_A @ ''1'')]) = Inr [wallet_A]"
  by (simp add: wallet_A_def base58_def in_range_def add_matches_def str_add_def)

lemma runs_run_of_45: "runs (wallet_A @ ''1'') = [wallet_A @ ''1'']"
  by (rule runs_single) (simp_all add: wallet_A_def base58_def in_range_def)

lemma spec_extract_run_of_45: "spec_extract [wallet_A @ ''1''] = []"
  by (simp add: spec_extract_def spec_tokens_def runs_run_of_45 str_set_of_def) (simp add: wallet_A_def)

lemma runs_two_mentions:
  "map runs two_mentions
     = [[''Program'', ''X'', ''invoke'', ''1'', ''wa'', ''et'', wallet_A], [''signer'', wallet_A]]"
  by (simp add: two_mentions_def wallet_A_def base58_def in_range_def)

lemma spec_extract_runs:
  "spec_extract lines =
     str_set_of (concat (map (filter (\<lambda>r. 32 \<le> length r \<and> length r \<le> 44)) (map runs lines)))"
proof -
  have "map spec_tokens lines
      = map (filter (\<lambda>r. 32 \<le> length r \<and> length r \<le> 44)) (map runs lines)"
    by (simp add: spec_tokens_def)
  then show ?thesis
    by (simp only: spec_extract_def)
qed

text \<open>
  Claim C8, as stated, fails on a run of the alphabet longer than 44 characters. A line
  that is one run of 45 characters has no maximal run of a length in [32,44], so the
  extraction as the specification words it returns nothing; \<^verbatim>\<open>extractWalletAddresses\<close>
  returns the first 44 characters of the run, which are not a maximal run and come from
  a run whose length is outside [32,44].
\<close>

theorem C8_counterexample:
  "length (wallet_A @ ''1'') = 45
   \<and> runs (wallet_A @ ''1'') = [wallet_A @ ''1'']
   \<and> spec_extract [wallet_A @ ''1''] = []
   \<and> extractWalletAddresses (JArr [JStr (wallet_A @ ''1'')]) = Inr [wallet_A]
   \<and> extractWalletAddresses (JArr [JStr (wallet_A @ ''1'')]) \<noteq> Inr (spec_extract [wallet_A @ ''1''])"
proof -
  have len: "length (wallet_A @ ''1'') = 45" by (simp add: wallet_A_def)
  have "wallet_A \<noteq> []" by (simp add: wallet_A_def)
  then have ne: "Inr [wallet_A] \<noteq> (Inr [] :: error + string list)" by simp
  show ?thesis
    unfolding runs_run_of_45 spec_extract_run_of_45 extract_run_of_45 using len ne by blast
qed

text \<open>
  Claim C8, amended. On a list of log lines \<^verbatim>\<open>extractWalletAddresses\<close> returns, each
  exactly once and in the order of first occurrence, the pieces of the maximal runs of
  the alphabet \<^verbatim>\<open>[1-9A-HJ-NP-Za-km-z]\<close>: a run shorter than 32 gives nothing, a run
  of a length in [32,44] gives itself, and a longer run gives its first 44 characters
  and then the pieces of what remains. When no run is longer than 44 this is the
  deduplicated list of the maximal runs whose length lies in [32,44].
\<close>

theorem C8_extraction_greedy_chunks:
  "extractWalletAddresses (JArr (map JStr lines)) =
     Inr (str_set_of (concat (map (\<lambda>line. concat (map chunks (runs line))) lines)))
   \<and> distinct (str_set_of tokens) \<and> set (str_set_of tokens) = set tokens
   \<and> (length r < 32 \<longrightarrow> chunks r = [])
   \<and> (32 \<le> length r \<and> length r \<le> 44 \<longrightarrow> chunks r = [r])
   \<and> (44 < length r \<longrightarrow> chunks r = take 44 r # chunks (drop 44 r))
   \<and> ((\<forall>line \<in> set lines. \<forall>r \<in> set (runs line). length r \<le> 44) \<longrightarrow>
        extractWalletAddresses (JArr (map JStr lines)) = Inr (spec_extract lines))"
proof -
  have code: "extractWalletAddresses (JArr (map JStr lines)) =
     Inr (str_set_of (concat (map (\<lambda>line. concat (map chunks (runs line))) lines)))"
  proof -
    have "map match_all lines = map (\<lambda>line. concat (map chunks (runs line))) lines"
      by (simp add: match_all_runs)
    then show ?thesis
      by (simp only: extractWalletAddresses.simps extract_forEach_lines str_set_of_def)
  qed
  have "extractWalletAddresses (JArr (map JStr lines)) = Inr (spec_extract lines)"
    if bounded: "\<forall>line \<in> set lines. \<forall>r \<in> set (runs line). length r \<le> 44"
  proof -
    have "map (\<lambda>line. concat (map chunks (runs line))) lines = map spec_tokens lines"
      using bounded by (simp add: spec_tokens_def chunks_bounded_runs)
    then show ?thesis
      by (simp only: code spec_extract_def)
  qed
  with code str_set_of_set [of tokens] chunks_short [of r] chunks_whole [of r] chunks_long [of r]
  show ?thesis by blast
qed

theorem C8_witness:
  "map (map length) (map runs two_mentions) = [[7, 1, 6, 1, 2, 2, 44], [6, 44]]
   \<and> extractWalletAddresses (JArr (map JStr two_mentions)) = Inr [wallet_A]
   \<and> length ''signer'' < 32 \<and> chunks ''signer'' = []
   \<and> 32 \<le> length wallet_A \<and> length wallet_A \<le> 44 \<and> chunks wallet_A = [wallet_A]
   \<and> 44 < length (wallet_A @ ''1'') \<and> chunks (wallet_A @ ''1'') = [wallet_A]"
proof -
  have len: "length wallet_A = 44" by (simp add: wallet_A_def)
  have "\<forall>rs \<in> set (map runs two_mentions). \<forall>r \<in> set rs. length r \<le> 44"
    unfolding runs_two_mentions by (simp add: len)
  then have bounded: "\<forall>line \<in> set two_mentions. \<forall>r \<in> set (runs line). length r \<le> 44"
    by simp
  have spec: "spec_extract two_mentions = [wallet_A]"
    unfolding spec_extract_runs runs_two_mentions
    by (simp add: len str_set_of_def str_add_def)
  have one: "chunks ''1'' = []"
    using C8_extraction_greedy_chunks [of "[]" "[]" "''1''"] by simp
  have short: "length ''signer'' < 32" by simp
  from C8_extraction_greedy_chunks [of two_mentions "[]" "''signer''"] bounded short
  have "extractWalletAddresses (JArr (map JStr two_mentions)) = Inr (spec_extract two_mentions)"
    and b: "chunks ''signer'' = []"
    by blast+
  then have a: "extractWalletAddresses (JArr (map JStr two_mentions)) = Inr [wallet_A]"
    by (simp only: spec)
  from C8_extraction_greedy_chunks [of "[]" "[]" wallet_A] len
  have c: "chunks wallet_A = [wallet_A]" by simp
  from C8_extraction_greedy_chunks [of "[]" "[]" "wallet_A @ ''1''"] len one
  have d: "chunks (wallet_A @ ''1'') = [wallet_A]" by simp
  have "map (map length) (map runs two_mentions) = [[7, 1, 6, 1, 2, 2, 44], [6, 44]]"
    unfolding runs_two_mentions by (simp add: len)
  with a b c d len short show ?thesis by simp
qed


end
